theory Spec2Isabelle
  imports Complex_Main "HOL-Library.Multiset"
begin

section \<open>Legal-Doc-AI: the LegalDocumentFinder retrieval pipeline\<close>

text \<open>
  A shallow embedding of \<^verbatim>\<open>trainingModelDemo.ipynb\<close> (class \<^verbatim>\<open>LegalDocumentFinder\<close>
  and \<^verbatim>\<open>main\<close>). Conventions of the embedding:
  \<^item> numpy \<^verbatim>\<open>float32\<close> values are real numbers: rounding, NaN and infinities are outside
    the model;
  \<^item> a vector is a list of reals, a matrix a list of rows;
  \<^item> every exception the Python code (or the library call it makes) raises is a value
    \<open>Inl e\<close> of the result type \<open>error + 'a\<close>;
  \<^item> the pretrained encoder (tokenizer and transformer) is a parameter
    \<open>enc :: string \<Rightarrow> vec\<close>, the CSV reader a parameter \<open>read_csv\<close>, numpy's \<^verbatim>\<open>argsort\<close> a
    parameter \<open>argsort\<close> (its order among equal values is not fixed), the availability
    of the \<^verbatim>\<open>faiss\<close> module a boolean;
  \<^item> the object state (\<^verbatim>\<open>self.embeddings\<close>, \<^verbatim>\<open>self.df\<close>, \<^verbatim>\<open>self.index\<close>) is a record
    passed in and returned.
\<close>

subsection \<open>Vectors, errors and the numeric library calls\<close>

type_synonym vec = "real list"
type_synonym matrix = "vec list"

text \<open>
  The exceptions of the Python code; \<open>ReadError n\<close> stands for whatever exception number
  \<open>n\<close> \<^verbatim>\<open>pd.read_csv\<close> raises (a decode error, a missing file, a parse error).
\<close>

datatype error =
  ValueError | KeyError | TypeError | AttributeError | IndexError | AssertionError | ReadError nat

text \<open>\<^verbatim>\<open>np.linalg.norm\<close> of one row and the dot product of two rows.\<close>

definition l2_norm :: "vec \<Rightarrow> real" where
  "l2_norm v = sqrt (\<Sum>x\<leftarrow>v. x * x)"

definition dot :: "vec \<Rightarrow> vec \<Rightarrow> real" where
  "dot a b = (\<Sum>(x, y)\<leftarrow>zip a b. x * y)"

text \<open>
  \<^verbatim>\<open>sklearn.preprocessing.normalize\<close> (norm l2) on one row: the row is divided by its
  norm, a zero norm being replaced by 1 first, so that a zero row stays zero.
\<close>

definition sk_normalize :: "vec \<Rightarrow> vec" where
  "sk_normalize v = (let n = l2_norm v; s = (if n = 0 then 1 else n) in map (\<lambda>x. x / s) v)"

text \<open>
  \<^verbatim>\<open>cosine_similarity(input_embedding, matrix).flatten()\<close> for a query of shape (1, D):
  both arguments are validated (at least one row, at least one column, equal widths,
  otherwise ValueError), both are normalised row by row, and the result is the product
  of the normalised query with each normalised row.
\<close>

definition cosine :: "vec \<Rightarrow> vec \<Rightarrow> real" where
  "cosine a b = dot (sk_normalize a) (sk_normalize b)"

definition cosine_similarity :: "vec \<Rightarrow> matrix \<Rightarrow> error + real list" where
  "cosine_similarity x Y =
     (if Y = [] \<or> x = [] \<or> (\<exists>r\<in>set Y. length r \<noteq> length x) then Inl ValueError
      else Inr (map (cosine x) Y))"

text \<open>
  \<^verbatim>\<open>np.stack\<close> of the cells of the embedding column: no cell at all is a ValueError
  ("need at least one array to stack"), cells of different shapes are a ValueError.
\<close>

definition np_stack :: "vec list \<Rightarrow> error + matrix" where
  "np_stack cells =
     (case cells of
        [] \<Rightarrow> Inl ValueError
      | c # cs \<Rightarrow> if \<forall>r\<in>set cs. length r = length c then Inr cells else Inl ValueError)"

text \<open>
  \<^verbatim>\<open>ndarray.argsort()\<close>: the positions of the array in an order that sorts the values
  ascending. numpy's default sort fixes no order among equal values (the order
  depends on the length of the array, the element type and the processor), so the
  search takes \<open>argsort\<close> as a parameter. \<open>is_argsort xs p\<close> is what numpy promises of
  the result \<open>p\<close> for the array \<open>xs\<close>: every position once, the values in ascending
  order.
\<close>

definition is_argsort :: "real list \<Rightarrow> nat list \<Rightarrow> bool" where
  "is_argsort xs p \<longleftrightarrow> distinct p \<and> set p = {0..<length xs} \<and> sorted (map (\<lambda>i. xs ! i) p)"

text \<open>
  One such order, used for the concrete instances: equal values in position order
  (an insertion sort).
\<close>

definition stable_argsort :: "real list \<Rightarrow> nat list" where
  "stable_argsort xs = sort_key (\<lambda>i. xs ! i) [0..<length xs]"

text \<open>Another one: equal values in reverse position order.\<close>

definition reversed_ties_argsort :: "real list \<Rightarrow> nat list" where
  "reversed_ties_argsort xs = rev (sort_key (\<lambda>i. - (xs ! i)) [0..<length xs])"

text \<open>The Python slice \<^verbatim>\<open>a[:k]\<close>: a negative \<open>k\<close> counts from the end.\<close>

definition slice_to :: "int \<Rightarrow> 'a list \<Rightarrow> 'a list" where
  "slice_to k xs = (if 0 \<le> k then take (nat k) xs else take (nat (int (length xs) + k)) xs)"

subsection \<open>The corpus table and the object state\<close>

text \<open>
  A row of the CSV table: the identifier column \<^verbatim>\<open>dieu\<close> and the text column
  \<^verbatim>\<open>truncated_text\<close>; \<open>None\<close> is a missing cell (NaN in pandas).
\<close>

record article =
  dieu :: "string option"
  truncated_text :: "string option"

text \<open>
  The column \<^verbatim>\<open>df["embedding"]\<close>. \<^verbatim>\<open>list(finder.embeddings)\<close> in \<^verbatim>\<open>main\<close> makes its
  cells row views of the array \<^verbatim>\<open>self.embeddings\<close> (\<open>Views\<close>: cell \<open>i\<close> reads row \<open>i\<close>
  of that array, also after the array is changed in place); a table that comes out of
  \<^verbatim>\<open>pickle.load\<close> holds arrays of its own (\<open>Copies\<close>).
\<close>

datatype embedding_col = Views | Copies "vec list"

record dataframe =
  rows :: "article list"
  embedding :: "embedding_col option"

text \<open>\<^verbatim>\<open>faiss.IndexFlatL2(d)\<close> with the vectors added to it.\<close>

record faiss_index =
  index_d :: nat
  xb :: matrix

record finder =
  embeddings :: "matrix option"
  df :: "dataframe option"
  index :: "faiss_index option"

text \<open>The state \<^verbatim>\<open>__init__\<close> leaves: all three fields \<^verbatim>\<open>None\<close>.\<close>

definition init :: finder where
  "init = \<lparr>embeddings = None, df = None, index = None\<rparr>"

text \<open>What the cells of an embedding column hold in a given state.\<close>

definition column_values :: "finder \<Rightarrow> embedding_col \<Rightarrow> vec list" where
  "column_values st c =
     (case c of
        Copies cs \<Rightarrow> cs
      | Views \<Rightarrow> (case embeddings st of None \<Rightarrow> [] | Some M \<Rightarrow> M))"

text \<open>\<^verbatim>\<open>self.df["embedding"].values\<close>: KeyError when the column does not exist.\<close>

definition embedding_values :: "finder \<Rightarrow> dataframe \<Rightarrow> error + vec list" where
  "embedding_values st t =
     (case embedding t of None \<Rightarrow> Inl KeyError | Some c \<Rightarrow> Inr (column_values st c))"

subsection \<open>The encoder\<close>

text \<open>
  \<^verbatim>\<open>encode_text\<close>: tokenise one text (truncated and padded to \<^verbatim>\<open>max_length\<close>), run the
  model, take the first token's hidden state. The whole chain is the parameter \<open>enc\<close>.
\<close>

definition encode_text :: "(string \<Rightarrow> vec) \<Rightarrow> string \<Rightarrow> vec" where
  "encode_text enc text = enc text"

text \<open>
  The model applied to one batch (\<^verbatim>\<open>outputs.last_hidden_state[:, 0, :]\<close>): every text
  is padded to \<^verbatim>\<open>max_length\<close> whatever the batch holds, and the encoder is taken to
  work item by item, so the batch output is the list of the items' vectors.
\<close>

definition model_forward :: "(string \<Rightarrow> vec) \<Rightarrow> string list \<Rightarrow> matrix" where
  "model_forward enc batch_texts = map enc batch_texts"

text \<open>
  The loop \<^verbatim>\<open>for i in range(0, len(texts), batch_size)\<close> of \<^verbatim>\<open>batch_encode_texts\<close>, for a
  positive step, from the index \<open>i\<close> on: the list of the batch outputs appended so far.
\<close>

function encode_batches :: "(string \<Rightarrow> vec) \<Rightarrow> string list \<Rightarrow> nat \<Rightarrow> nat \<Rightarrow> matrix list" where
  "encode_batches enc texts batch_size i =
     (if i < length texts \<and> 0 < batch_size
      then model_forward enc (take batch_size (drop i texts))
             # encode_batches enc texts batch_size (i + batch_size)
      else [])"
  by pat_completeness auto
termination
  by (relation "measure (\<lambda>(enc, texts, batch_size, i). length texts - i)") auto

declare encode_batches.simps [simp del]

text \<open>
  \<^verbatim>\<open>np.concatenate(embeddings, axis=0)\<close>: ValueError on an empty list of arrays. The
  batches all have the model's hidden size as their width.
\<close>

definition np_concatenate :: "matrix list \<Rightarrow> error + matrix" where
  "np_concatenate bs = (if bs = [] then Inl ValueError else Inr (concat bs))"

text \<open>
  \<^verbatim>\<open>batch_encode_texts\<close>. \<^verbatim>\<open>range\<close> raises ValueError on a zero step and is empty on a
  negative one.
\<close>

definition batch_encode_texts :: "(string \<Rightarrow> vec) \<Rightarrow> string list \<Rightarrow> int \<Rightarrow> error + matrix" where
  "batch_encode_texts enc texts batch_size =
     (if batch_size = 0 then Inl ValueError
      else np_concatenate
             (if batch_size < 0 then [] else encode_batches enc texts (nat batch_size) 0))"

subsection \<open>Searching\<close>

text \<open>
  The \<^verbatim>\<open>else\<close> branch of \<^verbatim>\<open>find_similar_articles\<close> (exact search): stack the cells,
  compute the cosine similarities, \<^verbatim>\<open>argsort()[::-1][:top_k]\<close>, and read the similarities
  at the chosen indices. The result is the pair (similarities, top_indices).
\<close>

definition brute_force ::
    "(real list \<Rightarrow> nat list) \<Rightarrow> vec \<Rightarrow> vec list \<Rightarrow> int \<Rightarrow> error + (real list \<times> nat list)" where
  "brute_force argsort input_embedding cells top_k =
     (case np_stack cells of
        Inl e \<Rightarrow> Inl e
      | Inr matrix \<Rightarrow>
          (case cosine_similarity input_embedding matrix of
             Inl e \<Rightarrow> Inl e
           | Inr similarities \<Rightarrow>
               (let top_indices = slice_to top_k (rev (argsort similarities))
                in Inr (map (\<lambda>i. similarities ! i) top_indices, top_indices))))"

text \<open>
  The squared Euclidean distance \<^verbatim>\<open>IndexFlatL2\<close> reports, and the value it reports
  where it has no neighbour left (the largest \<^verbatim>\<open>float32\<close>, with the label -1).
\<close>

definition l2_sqr :: "vec \<Rightarrow> vec \<Rightarrow> real" where
  "l2_sqr a b = (\<Sum>(x, y)\<leftarrow>zip a b. (x - y) * (x - y))"

definition FLT_MAX :: real where
  "FLT_MAX = 340282346638528859811704183484516925440"

text \<open>
  \<^verbatim>\<open>index.search(x, k)\<close> for one query: faiss asserts \<open>k > 0\<close> and that the query has
  the width of the index; it returns \<open>k\<close> distances in ascending order with the
  labels of their vectors, and fills the positions past the number of stored vectors
  with (\<open>FLT_MAX\<close>, -1). The model lists vectors at equal distance in label order.
\<close>

definition index_search :: "faiss_index \<Rightarrow> vec \<Rightarrow> int \<Rightarrow> error + (real list \<times> int list)" where
  "index_search idx x k =
     (if k \<le> 0 \<or> length x \<noteq> index_d idx then Inl AssertionError
      else
        (let ds = map (l2_sqr x) (xb idx);
             found = take (nat k) (stable_argsort ds);
             missing = nat k - length found
         in Inr (map (\<lambda>i. ds ! i) found @ replicate missing FLT_MAX,
                 map int found @ replicate missing (- 1))))"

text \<open>The conversion of line 163: \<^verbatim>\<open>similarities = 1 - distances.flatten() / 2\<close>.\<close>

definition approx_similarity :: "real \<Rightarrow> real" where
  "approx_similarity distance = 1 - distance / 2"

text \<open>
  \<^verbatim>\<open>df.iloc[top_indices]\<close>: positional indexing, a negative position counting from the
  end, IndexError out of bounds. A selected row keeps its index label, which after
  \<^verbatim>\<open>reset_index\<close> is its position in the table.
\<close>

definition iloc1 :: "article list \<Rightarrow> int \<Rightarrow> error + (nat \<times> article)" where
  "iloc1 rs i =
     (let n = int (length rs); j = (if i < 0 then n + i else i)
      in if 0 \<le> j \<and> j < n then Inr (nat j, rs ! nat j) else Inl IndexError)"

fun iloc :: "article list \<Rightarrow> int list \<Rightarrow> error + (nat \<times> article) list" where
  "iloc rs [] = Inr []"
| "iloc rs (i # is) =
     (case iloc1 rs i of
        Inl e \<Rightarrow> Inl e
      | Inr r \<Rightarrow> (case iloc rs is of Inl e \<Rightarrow> Inl e | Inr picked \<Rightarrow> Inr (r # picked)))"

text \<open>A row of the result table: index label, the two article columns, the score.\<close>

record result_row =
  label :: nat
  art :: article
  similarity :: real

text \<open>
  Line 156, \<^verbatim>\<open>input_embedding / np.linalg.norm(input_embedding, axis=1, keepdims=True)\<close>.
  For a zero vector numpy yields NaN where the model yields zeros.
\<close>

definition normalize_query :: "vec \<Rightarrow> vec" where
  "normalize_query v = map (\<lambda>x. x / l2_norm v) v"

text \<open>
  \<^verbatim>\<open>find_similar_articles\<close>: one of the two branches gives the similarities and the
  positions, then the rows at these positions are selected and the similarities are
  attached. While \<^verbatim>\<open>self.df\<close> is \<^verbatim>\<open>None\<close>, \<^verbatim>\<open>self.df[...]\<close> raises TypeError and
  \<^verbatim>\<open>self.df.iloc\<close> AttributeError.
\<close>

definition find_similar_articles ::
    "(real list \<Rightarrow> nat list) \<Rightarrow> (string \<Rightarrow> vec) \<Rightarrow> finder \<Rightarrow> string \<Rightarrow> int \<Rightarrow>
     error + result_row list" where
  "find_similar_articles argsort enc st input_text top_k =
     (let input_embedding = encode_text enc input_text;
          input_norm = normalize_query input_embedding
      in
        (case (case index st of
                 Some idx \<Rightarrow>
                   (case index_search idx input_norm top_k of
                      Inl e \<Rightarrow> Inl e
                    | Inr (distances, indices) \<Rightarrow>
                        Inr (map approx_similarity distances, indices))
               | None \<Rightarrow>
                   (case df st of
                      None \<Rightarrow> Inl TypeError
                    | Some t \<Rightarrow>
                        (case embedding_values st t of
                           Inl e \<Rightarrow> Inl e
                         | Inr cells \<Rightarrow>
                             (case brute_force argsort input_embedding cells top_k of
                                Inl e \<Rightarrow> Inl e
                              | Inr (similarities, top_indices) \<Rightarrow>
                                  Inr (similarities, map int top_indices))))) of
           Inl e \<Rightarrow> Inl e
         | Inr (similarities, top_indices) \<Rightarrow>
             (case df st of
                None \<Rightarrow> Inl AttributeError
              | Some t \<Rightarrow>
                  (case iloc (rows t) top_indices of
                     Inl e \<Rightarrow> Inl e
                   | Inr picked \<Rightarrow>
                       Inr (map (\<lambda>((l, a), s). \<lparr>label = l, art = a, similarity = s\<rparr>)
                              (zip picked similarities))))))"

subsection \<open>Building the index\<close>

text \<open>
  \<^verbatim>\<open>faiss.normalize_L2\<close> on one row, as faiss computes it: a row whose squared norm is
  positive is multiplied by the inverse of its norm, a zero row is left as it is.
\<close>

definition normalize_L2_row :: "vec \<Rightarrow> vec" where
  "normalize_L2_row v =
     (let nr = (\<Sum>x\<leftarrow>v. x * x) in if nr > 0 then map (\<lambda>x. x * (1 / sqrt nr)) v else v)"

text \<open>\<^verbatim>\<open>self.embeddings.shape[1]\<close>; the width of a matrix without rows is not kept by a list.\<close>

definition width :: "matrix \<Rightarrow> nat" where
  "width M = (case M of [] \<Rightarrow> 0 | r # _ \<Rightarrow> length r)"

text \<open>
  \<^verbatim>\<open>build_index\<close>: with faiss imported and embeddings present, an index of the width of
  the embeddings is made, \<^verbatim>\<open>faiss.normalize_L2(self.embeddings)\<close> overwrites the array
  \<^verbatim>\<open>self.embeddings\<close> row by row, and the overwritten array is added to the index.
  Otherwise nothing changes.
\<close>

definition build_index :: "bool \<Rightarrow> finder \<Rightarrow> finder" where
  "build_index faiss st =
     (case embeddings st of
        Some M \<Rightarrow>
          if faiss then
            (let normalized = map normalize_L2_row M
             in st\<lparr>index := Some \<lparr>index_d = width M, xb = normalized\<rparr>,
                   embeddings := Some normalized\<rparr>)
          else st
      | None \<Rightarrow> st)"

subsection \<open>The embeddings cache\<close>

text \<open>
  What \<^verbatim>\<open>pickle.dump\<close> writes for \<^verbatim>\<open>{"df": self.df, "embeddings": self.embeddings}\<close>.
  Pickling stores every array by value: a cell that was a view of \<^verbatim>\<open>self.embeddings\<close>
  is written with the values it shows at that moment and comes back as an array of its
  own. A file system maps a path to the content of the cache file there.
\<close>

record cache =
  c_df :: "dataframe option"
  c_embeddings :: "matrix option"

type_synonym filesystem = "string \<rightharpoonup> cache"

definition pickle_df :: "finder \<Rightarrow> dataframe \<Rightarrow> dataframe" where
  "pickle_df st t = t\<lparr>embedding := map_option (\<lambda>c. Copies (column_values st c)) (embedding t)\<rparr>"

definition cache_embeddings :: "finder \<Rightarrow> string \<Rightarrow> filesystem \<Rightarrow> filesystem" where
  "cache_embeddings st cache_path fs =
     fs(cache_path \<mapsto> \<lparr>c_df = map_option (pickle_df st) (df st), c_embeddings = embeddings st\<rparr>)"

text \<open>\<^verbatim>\<open>load_cached_embeddings\<close>: the returned boolean and the new state.\<close>

definition load_cached_embeddings :: "finder \<Rightarrow> string \<Rightarrow> filesystem \<Rightarrow> bool \<times> finder" where
  "load_cached_embeddings st cache_path fs =
     (case fs cache_path of
        Some c \<Rightarrow> (True, st\<lparr>df := c_df c, embeddings := c_embeddings c\<rparr>)
      | None \<Rightarrow> (False, st))"

subsection \<open>Loading the corpus\<close>

datatype encoding = Utf8Sig | Utf16

text \<open>\<^verbatim>\<open>df.dropna(subset=["truncated_text", "dieu"])\<close>.\<close>

definition complete_row :: "article \<Rightarrow> bool" where
  "complete_row r \<longleftrightarrow> truncated_text r \<noteq> None \<and> dieu r \<noteq> None"

definition dropna :: "article list \<Rightarrow> article list" where
  "dropna t = filter complete_row t"

text \<open>
  \<^verbatim>\<open>drop_duplicates(subset=["truncated_text"])\<close> (\<^verbatim>\<open>keep="first"\<close>): a row is dropped when
  its text has been seen on a row before it.
\<close>

fun drop_seen :: "string option list \<Rightarrow> article list \<Rightarrow> article list" where
  "drop_seen seen [] = []"
| "drop_seen seen (r # rs) =
     (if truncated_text r \<in> set seen then drop_seen seen rs
      else r # drop_seen (truncated_text r # seen) rs)"

definition drop_duplicates :: "article list \<Rightarrow> article list" where
  "drop_duplicates t = drop_seen [] t"

text \<open>
  \<^verbatim>\<open>load_data\<close>. \<open>read_csv path e\<close> is \<^verbatim>\<open>pd.read_csv\<close> on the file with the encoding
  \<open>e\<close>: the parsed table, or the exception raised. The first component of the result
  is the list of the encodings tried, in order. The table type has both columns, so
  the KeyError of a table without them is outside the model.
\<close>

definition load_data ::
    "(string \<Rightarrow> encoding \<Rightarrow> error + article list) \<Rightarrow> string \<Rightarrow> encoding list \<times> (error + article list)" where
  "load_data read_csv file_path =
     (let (tried, r) =
            (case read_csv file_path Utf8Sig of
               Inr t \<Rightarrow> ([Utf8Sig], Inr t)
             | Inl e \<Rightarrow> ([Utf8Sig, Utf16], read_csv file_path Utf16))
      in (tried, case r of Inl e \<Rightarrow> Inl e | Inr t \<Rightarrow> Inr (drop_duplicates (dropna t))))"

subsection \<open>The program\<close>

record args =
  data_file :: string
  cache_file :: string
  batch_size :: int
  use_faiss :: bool

text \<open>\<^verbatim>\<open>finder.df["truncated_text"].tolist()\<close>, as a list of strings for the tokenizer.\<close>

definition tolist :: "article list \<Rightarrow> error + string list" where
  "tolist t =
     (if \<forall>r\<in>set t. truncated_text r \<noteq> None then Inr (map (\<lambda>r. the (truncated_text r)) t)
      else Inl TypeError)"

text \<open>
  \<^verbatim>\<open>main\<close>, up to the printing of the results: the final state, the file system and the
  result table, or the exception that ends the program.
\<close>

definition main ::
    "(real list \<Rightarrow> nat list) \<Rightarrow> (string \<Rightarrow> encoding \<Rightarrow> error + article list) \<Rightarrow> (string \<Rightarrow> vec) \<Rightarrow>
     bool \<Rightarrow> args \<Rightarrow> string \<Rightarrow> filesystem \<Rightarrow> error + (finder \<times> filesystem \<times> result_row list)" where
  "main argsort read_csv enc faiss a demo_text fs =
     (case snd (load_data read_csv (data_file a)) of
        Inl e \<Rightarrow> Inl e
      | Inr t \<Rightarrow>
          (let loaded = init\<lparr>df := Some \<lparr>rows = t, embedding = None\<rparr>\<rparr>
           in case (case load_cached_embeddings loaded (cache_file a) fs of
                      (True, cached) \<Rightarrow> Inr (cached, fs)
                    | (False, uncached) \<Rightarrow>
                        (case tolist t of
                           Inl e \<Rightarrow> Inl e
                         | Inr all_texts \<Rightarrow>
                             (case batch_encode_texts enc all_texts (batch_size a) of
                                Inl e \<Rightarrow> Inl e
                              | Inr E \<Rightarrow>
                                  (let encoded =
                                         uncached\<lparr>embeddings := Some E,
                                                  df := Some \<lparr>rows = t, embedding = Some Views\<rparr>\<rparr>
                                   in Inr (encoded, cache_embeddings encoded (cache_file a) fs))))) of
                Inl e \<Rightarrow> Inl e
              | Inr (ready, fs') \<Rightarrow>
                  (let searched = (if use_faiss a then build_index faiss ready else ready)
                   in case find_similar_articles argsort enc searched demo_text 5 of
                        Inl e \<Rightarrow> Inl e
                      | Inr results \<Rightarrow> Inr (searched, fs', results))))"

subsection \<open>Predicates used to state the properties\<close>

text \<open>
  A state in which the exact search can run on the query \<open>text\<close>: the table \<open>t\<close> is
  loaded, its embedding column exists and holds the cells \<open>cells\<close>, one per row, the
  corpus is not empty, and the cells have the width of the encoder's output.
\<close>

definition corpus_ready ::
    "(string \<Rightarrow> vec) \<Rightarrow> finder \<Rightarrow> string \<Rightarrow> dataframe \<Rightarrow> vec list \<Rightarrow> bool" where
  "corpus_ready enc st text t cells \<longleftrightarrow>
     df st = Some t \<and> embedding_values st t = Inr cells \<and> length (rows t) = length cells \<and>
     cells \<noteq> [] \<and> enc text \<noteq> [] \<and> (\<forall>r\<in>set cells. length r = length (enc text))"

text \<open>
  A state in which the index search can run on the query \<open>text\<close>: the index \<open>idx\<close> is
  built, the table \<open>t\<close> has one row per indexed vector, and the query vector is not zero
  and has the width of the index.
\<close>

definition index_ready ::
    "(string \<Rightarrow> vec) \<Rightarrow> finder \<Rightarrow> string \<Rightarrow> dataframe \<Rightarrow> faiss_index \<Rightarrow> bool" where
  "index_ready enc st text t idx \<longleftrightarrow>
     index st = Some idx \<and> df st = Some t \<and> length (rows t) = length (xb idx) \<and>
     l2_norm (enc text) \<noteq> 0 \<and> index_d idx = length (enc text)"

text \<open>
  The best rows, best first: \<open>res\<close> has min(k, n) rows for the n corpus vectors
  \<open>cells\<close>, no corpus row twice, every row with the article and the cosine similarity
  (to the query vector \<open>q\<close>) of the corpus row it labels, and the similarities of \<open>res\<close>
  are the k largest similarities of the corpus in descending order.
\<close>

definition top_k_ranking :: "int \<Rightarrow> vec \<Rightarrow> article list \<Rightarrow> vec list \<Rightarrow> result_row list \<Rightarrow> bool" where
  "top_k_ranking k q rs cells res \<longleftrightarrow>
     length res = min (nat k) (length cells) \<and>
     distinct (map label res) \<and>
     (\<forall>r\<in>set res. label r < length cells \<and> art r = rs ! label r \<and>
                    similarity r = cosine q (cells ! label r)) \<and>
     map similarity res = take (nat k) (rev (sort (map (cosine q) cells)))"

text \<open>
  The rows of a table \<open>t\<close> at the positions that satisfy \<open>P\<close>, in the order of \<open>t\<close>.
\<close>

definition select_rows :: "(nat \<Rightarrow> bool) \<Rightarrow> article list \<Rightarrow> article list" where
  "select_rows P t = map (\<lambda>i. t ! i) (filter P [0..<length t])"

text \<open>
  The rows the loader keeps, in the words of the claim: a row is kept when it misses
  neither field and no row before it in the table has the same text.
\<close>

definition kept_as_claimed :: "article list \<Rightarrow> nat \<Rightarrow> bool" where
  "kept_as_claimed t i \<longleftrightarrow>
     complete_row (t ! i) \<and> (\<forall>j\<in>set [0..<i]. truncated_text (t ! j) \<noteq> truncated_text (t ! i))"

text \<open>
  The same with the duplicates counted among the complete rows only: a row is kept
  when it misses neither field and no complete row before it has the same text.
\<close>

definition kept :: "article list \<Rightarrow> nat \<Rightarrow> bool" where
  "kept t i \<longleftrightarrow>
     complete_row (t ! i) \<and>
     (\<forall>j\<in>set [0..<i]. complete_row (t ! j) \<longrightarrow> truncated_text (t ! j) \<noteq> truncated_text (t ! i))"

text \<open>
  What a state holds of the corpus: the articles with the values of their embedding
  cells, and the embedding matrix.
\<close>

definition corpus_of :: "finder \<Rightarrow> (article list \<times> (error + vec list)) option \<times> matrix option" where
  "corpus_of st = (map_option (\<lambda>t. (rows t, embedding_values st t)) (df st), embeddings st)"

text \<open>
  The state \<^verbatim>\<open>main\<close> has reached when the table \<open>tbl\<close> is loaded and encoded and no
  index is built yet.
\<close>

definition encoded_corpus :: "(string \<Rightarrow> vec) \<Rightarrow> article list \<Rightarrow> finder" where
  "encoded_corpus enc tbl =
     \<lparr>embeddings = Some (map enc (map (\<lambda>r. the (truncated_text r)) tbl)),
      df = Some \<lparr>rows = tbl, embedding = Some Views\<rparr>, index = None\<rparr>"

subsection \<open>A small corpus for the concrete instances\<close>

text \<open>
  Three articles whose vectors are \<open>[0, 1]\<close>, \<open>[0, 2]\<close> and \<open>[1, 0]\<close>, and an
  encoder that maps every query to \<open>[1, 0]\<close>: the cosine similarities are 0, 0 and 1.
\<close>

definition demo_rows :: "article list" where
  "demo_rows =
     [\<lparr>dieu = Some ''Dieu 1'', truncated_text = Some ''A''\<rparr>,
      \<lparr>dieu = Some ''Dieu 2'', truncated_text = Some ''B''\<rparr>,
      \<lparr>dieu = Some ''Dieu 3'', truncated_text = Some ''C''\<rparr>]"

definition demo_cells :: matrix where
  "demo_cells = [[0, 1], [0, 2], [1, 0]]"

definition demo_table :: dataframe where
  "demo_table = \<lparr>rows = demo_rows, embedding = Some Views\<rparr>"

definition demo_finder :: finder where
  "demo_finder = \<lparr>embeddings = Some demo_cells, df = Some demo_table, index = None\<rparr>"

definition demo_enc :: "string \<Rightarrow> vec" where
  "demo_enc text = [1, 0]"

text \<open>
  The three-row corpus written to a cache file and read back into a fresh object.
\<close>

definition demo_cached :: finder where
  "demo_cached =
     snd (load_cached_embeddings init ''cache.pkl''
            (cache_embeddings demo_finder ''cache.pkl'' Map.empty))"

text \<open>
  A table whose first row misses the identifier and whose second row has the same
  text, and readers of three kinds: one that reads every file in the first encoding,
  one that fails on the first encoding only, one that fails on both.
\<close>

definition dup_table :: "article list" where
  "dup_table =
     [\<lparr>dieu = None, truncated_text = Some ''A''\<rparr>,
      \<lparr>dieu = Some ''Dieu 1'', truncated_text = Some ''A''\<rparr>]"

definition read_utf8 :: "article list \<Rightarrow> string \<Rightarrow> encoding \<Rightarrow> error + article list" where
  "read_utf8 t file_path e = Inr t"

definition read_utf16 :: "article list \<Rightarrow> string \<Rightarrow> encoding \<Rightarrow> error + article list" where
  "read_utf16 t file_path e = (case e of Utf8Sig \<Rightarrow> Inl (ReadError 0) | Utf16 \<Rightarrow> Inr t)"

definition read_fails :: "string \<Rightarrow> encoding \<Rightarrow> error + article list" where
  "read_fails file_path e = (case e of Utf8Sig \<Rightarrow> Inl (ReadError 0) | Utf16 \<Rightarrow> Inl (ReadError 1))"

definition demo_args :: args where
  "demo_args = \<lparr>data_file = ''corpus.csv'', cache_file = ''cache.pkl'', batch_size = 2,
                 use_faiss = True\<rparr>"

text \<open>The same corpus after \<^verbatim>\<open>build_index\<close> with faiss imported.\<close>

definition demo_indexed :: finder where
  "demo_indexed = build_index True demo_finder"

text \<open>A corpus of two articles whose first vector is zero.\<close>

definition zero_finder :: finder where
  "zero_finder =
     \<lparr>embeddings = Some [[0, 0], [1, 0]],
      df = Some \<lparr>rows = take 2 demo_rows, embedding = Some Views\<rparr>,
      index = None\<rparr>"

text \<open>
  Five articles and an encoder that gives them the vectors \<open>[1, 0]\<close>, \<open>[0, 1]\<close>,
  \<open>[3, 4]\<close>, \<open>[4, 3]\<close> and \<open>[-1, 0]\<close>, and every other text the vector \<open>[1, 0]\<close>.
\<close>

definition five_rows :: "article list" where
  "five_rows =
     [\<lparr>dieu = Some ''Dieu 1'', truncated_text = Some ''A''\<rparr>,
      \<lparr>dieu = Some ''Dieu 2'', truncated_text = Some ''B''\<rparr>,
      \<lparr>dieu = Some ''Dieu 3'', truncated_text = Some ''C''\<rparr>,
      \<lparr>dieu = Some ''Dieu 4'', truncated_text = Some ''D''\<rparr>,
      \<lparr>dieu = Some ''Dieu 5'', truncated_text = Some ''E''\<rparr>]"

definition five_enc :: "string \<Rightarrow> vec" where
  "five_enc text =
     (if text = ''B'' then [0, 1] else if text = ''C'' then [3, 4]
      else if text = ''D'' then [4, 3] else if text = ''E'' then [- 1, 0] else [1, 0])"

section \<open>Properties\<close>

subsection \<open>Sorting and slicing\<close>

lemma stable_argsort_is_argsort: "\<forall>xs. is_argsort xs (stable_argsort xs)"
  unfolding is_argsort_def stable_argsort_def by simp

lemma is_argsort_length: "is_argsort xs p \<Longrightarrow> length p = length xs"
  unfolding is_argsort_def using distinct_card [of p] by auto

lemma is_argsort_in_range: "is_argsort xs p \<Longrightarrow> i \<in> set p \<Longrightarrow> i < length xs"
  by (simp add: is_argsort_def)

text \<open>
  The values read in the order of an argsort are the sorted values, whatever the
  order among equal values.
\<close>

lemma is_argsort_values:
  assumes "is_argsort xs p"
  shows "map (\<lambda>i. xs ! i) p = sort xs"
proof -
  have "mset p = mset [0..<length xs]"
    by (rule iffD1 [OF set_eq_iff_mset_eq_distinct]) (use assms in \<open>simp_all add: is_argsort_def\<close>)
  then have "mset (map (\<lambda>i. xs ! i) p) = mset (map (\<lambda>i. xs ! i) [0..<length xs])"
    by (simp only: mset_map)
  also have "map (\<lambda>i. xs ! i) [0..<length xs] = xs"
    by (rule map_nth)
  finally have "mset (map (\<lambda>i. xs ! i) p) = mset xs" .
  moreover have "sorted (map (\<lambda>i. xs ! i) p)"
    using assms by (simp add: is_argsort_def)
  ultimately show ?thesis
    by (rule properties_for_sort [symmetric])
qed

text \<open>Both orders of equal values are argsorts of the array 1, 1, 0, 0.\<close>

lemma argsort_tie_orders:
  "is_argsort [1, 1, 0, 0] [3, 2, 1, 0] \<and> is_argsort [1, 1, 0, 0] [2, 3, 0, 1]"
  by (auto simp: is_argsort_def)

lemma slice_to_subset: "set (slice_to k xs) \<subseteq> set xs"
  by (auto simp: slice_to_def dest: in_set_takeD)

lemma slice_to_all: "int (length xs) \<le> k \<Longrightarrow> slice_to k xs = xs"
  by (simp add: slice_to_def)

lemma slice_to_take: "0 \<le> k \<Longrightarrow> slice_to k xs = take (nat k) xs"
  by (simp add: slice_to_def)

lemma iloc_nat:
  "\<forall>i\<in>set js. i < length rs \<Longrightarrow> iloc rs (map int js) = Inr (map (\<lambda>i. (i, rs ! i)) js)"
  by (induction js) (simp_all add: iloc1_def)

subsection \<open>The exact search\<close>

text \<open>
  In a state without an index and with a corpus ready, \<open>find_similar_articles\<close> returns
  the rows at the positions \<open>argsort()[::-1][:top_k]\<close> of the cosine similarities, each
  with its label, its article and its similarity.
\<close>

lemma find_similar_articles_exact:
  assumes "\<forall>xs. is_argsort xs (argsort xs)"
    and "index st = None" and "corpus_ready enc st text t cells"
  shows "find_similar_articles argsort enc st text k =
           Inr (map (\<lambda>i. \<lparr>label = i, art = rows t ! i, similarity = cosine (enc text) (cells ! i)\<rparr>)
                  (slice_to k (rev (argsort (map (cosine (enc text)) cells)))))"
proof -
  let ?sims = "map (cosine (enc text)) cells"
  let ?top = "slice_to k (rev (argsort ?sims))"
  have a: "is_argsort ?sims (argsort ?sims)"
    using assms(1) by simp
  have top: "\<forall>i\<in>set ?top. i < length cells"
    using slice_to_subset [of k "rev (argsort ?sims)"] is_argsort_in_range [OF a]
    by auto
  have stack: "np_stack cells = Inr cells"
    using assms(3) by (cases cells) (auto simp: corpus_ready_def np_stack_def)
  have cs: "cosine_similarity (enc text) cells = Inr ?sims"
    using assms(3) by (auto simp: corpus_ready_def cosine_similarity_def)
  have bf: "brute_force argsort (enc text) cells k = Inr (map (\<lambda>i. ?sims ! i) ?top, ?top)"
    by (simp add: brute_force_def stack cs Let_def)
  have il: "iloc (rows t) (map int ?top) = Inr (map (\<lambda>i. (i, rows t ! i)) ?top)"
    using top assms(3) by (intro iloc_nat) (simp add: corpus_ready_def)
  have d: "df st = Some t" and ev: "embedding_values st t = Inr cells"
    using assms(3) by (simp_all add: corpus_ready_def)
  have "find_similar_articles argsort enc st text k =
          Inr (map (\<lambda>((l, a), s). \<lparr>label = l, art = a, similarity = s\<rparr>)
                 (zip (map (\<lambda>i. (i, rows t ! i)) ?top) (map (\<lambda>i. ?sims ! i) ?top)))"
    by (simp add: find_similar_articles_def encode_text_def assms(2) d ev bf il Let_def)
  also have "zip (map (\<lambda>i. (i, rows t ! i)) ?top) (map (\<lambda>i. ?sims ! i) ?top) =
               map (\<lambda>i. ((i, rows t ! i), ?sims ! i)) ?top"
    by (simp add: zip_map_map zip_same_conv_map)
  also have "map (\<lambda>((l, a), s). \<lparr>label = l, art = a, similarity = s\<rparr>) \<dots> =
               map (\<lambda>i. \<lparr>label = i, art = rows t ! i, similarity = cosine (enc text) (cells ! i)\<rparr>) ?top"
    using top by simp
  finally show ?thesis .
qed

text \<open>
  The rows at the first \<open>k\<close> positions of a reversed argsort of the similarities are
  the best rows, best first.
\<close>

lemma reversed_argsort_top_k:
  assumes "is_argsort (map (cosine q) cells) p" and "0 \<le> k"
  shows "top_k_ranking k q rs cells
           (map (\<lambda>i. \<lparr>label = i, art = rs ! i, similarity = cosine q (cells ! i)\<rparr>)
              (take (nat k) (rev p)))"
proof -
  let ?sims = "map (cosine q) cells"
  let ?top = "take (nat k) (rev p)"
  let ?row = "\<lambda>i. \<lparr>label = i, art = rs ! i, similarity = cosine q (cells ! i)\<rparr>"
  have in_range: "i < length cells" if "i \<in> set ?top" for i
    using that is_argsort_in_range [OF assms(1), of i] by (auto dest: in_set_takeD)
  have len: "length (map ?row ?top) = min (nat k) (length cells)"
    using is_argsort_length [OF assms(1)] by (simp add: min.commute)
  have labels: "map label (map ?row ?top) = ?top"
    by (simp add: comp_def)
  have dist: "distinct (map label (map ?row ?top))"
    using assms(1) by (simp only: labels) (simp add: is_argsort_def)
  have "map similarity (map ?row ?top) = map (\<lambda>i. ?sims ! i) ?top"
    using in_range by (simp add: comp_def)
  also have "\<dots> = take (nat k) (rev (map (\<lambda>i. ?sims ! i) p))"
    by (simp add: take_map rev_map)
  also have "\<dots> = take (nat k) (rev (sort ?sims))"
    by (simp only: is_argsort_values [OF assms(1)])
  finally have sims: "map similarity (map ?row ?top) = take (nat k) (rev (sort ?sims))" .
  have rows: "\<forall>r\<in>set (map ?row ?top). label r < length cells \<and> art r = rs ! label r \<and>
                similarity r = cosine q (cells ! label r)"
    using in_range by auto
  show ?thesis
    unfolding top_k_ranking_def using len dist rows sims by blast
qed

lemma cosine_demo: "map (cosine (demo_enc q)) demo_cells = [0, 0, 1]"
  by (simp add: demo_cells_def demo_enc_def cosine_def sk_normalize_def l2_norm_def dot_def)

lemma stable_argsort_demo: "stable_argsort [0, 0, 1] = [0, 1, 2]"
  by (simp add: stable_argsort_def upt_conv_Cons)

lemma demo_ready: "corpus_ready demo_enc demo_finder q demo_table demo_cells"
  by (simp add: corpus_ready_def demo_finder_def demo_table_def demo_rows_def demo_cells_def
      demo_enc_def embedding_values_def column_values_def)

lemma reversed_ties_argsort_is_argsort: "\<forall>xs. is_argsort xs (reversed_ties_argsort xs)"
proof
  fix xs :: "real list"
  let ?p = "sort_key (\<lambda>i. - (xs ! i)) [0..<length xs]"
  have "sorted (map (\<lambda>i. - (xs ! i)) ?p)"
    by (rule sorted_sort_key)
  then have "sorted_wrt (\<lambda>a b. - (xs ! a) \<le> - (xs ! b)) ?p"
    by (simp only: sorted_map)
  then have "sorted_wrt (\<lambda>a b. xs ! b \<le> xs ! a) ?p"
    by (rule sorted_wrt_mono_rel [rotated]) simp
  then have "sorted (map (\<lambda>i. xs ! i) (rev ?p))"
    by (simp add: sorted_wrt_map sorted_wrt_rev)
  then show "is_argsort xs (reversed_ties_argsort xs)"
    by (simp add: is_argsort_def reversed_ties_argsort_def)
qed

text \<open>
  The two orders on arrays with equal values: \<open>stable_argsort\<close> lists the positions
  of equal values upwards, \<open>reversed_ties_argsort\<close> downwards.
\<close>

lemma argsort_instances_on_ties:
  "stable_argsort [1, 1, 0, 0] = [2, 3, 0, 1] \<and> reversed_ties_argsort [1, 1, 0, 0] = [3, 2, 1, 0]"
  by (simp add: stable_argsort_def reversed_ties_argsort_def upt_conv_Cons)

text \<open>
  C1, as the claim states it, at a corpus of no vectors: the claim promises a result
  of no rows, the search raises the ValueError of \<^verbatim>\<open>np.stack\<close>.
\<close>

theorem exact_search_empty_corpus_raises:
  "find_similar_articles stable_argsort demo_enc
     \<lparr>embeddings = Some [], df = Some \<lparr>rows = [], embedding = Some Views\<rparr>, index = None\<rparr>
     ''q'' 0 = Inl ValueError"
  by (simp add: find_similar_articles_def encode_text_def embedding_values_def
      column_values_def brute_force_def np_stack_def)

text \<open>
  C1 (amended): for a corpus of N vectors with N at least 1, no index present, and
  whatever order \<open>argsort\<close> gives to equal values, \<open>find_similar_articles\<close> with \<open>top_k\<close>
  at least N returns exactly N rows; every row index from 0 to N - 1 is the label of
  exactly one of them; the similarities are in non-increasing order; and each row
  carries the cosine similarity between the query vector and the corpus vector of
  its label, and the article of its label.
\<close>

theorem exact_search_all_rows_once:
  assumes "\<forall>xs. is_argsort xs (argsort xs)"
    and "index st = None" and "corpus_ready enc st text t cells" and "int (length cells) \<le> k"
  shows "\<exists>res. find_similar_articles argsort enc st text k = Inr res \<and> length res = length cells \<and>
           distinct (map label res) \<and> set (map label res) = {0..<length cells} \<and>
           sorted_wrt (\<ge>) (map similarity res) \<and>
           (\<forall>r\<in>set res. similarity r = cosine (enc text) (cells ! label r) \<and>
                          art r = rows t ! label r)"
proof -
  let ?sims = "map (cosine (enc text)) cells"
  let ?top = "rev (argsort ?sims)"
  let ?res = "map (\<lambda>i. \<lparr>label = i, art = rows t ! i, similarity = cosine (enc text) (cells ! i)\<rparr>) ?top"
  have a: "is_argsort ?sims (argsort ?sims)"
    using assms(1) by simp
  have set_top: "set ?top = {0..<length cells}" and dist: "distinct ?top"
    and len: "length ?top = length cells"
    using a is_argsort_length [OF a] by (simp_all add: is_argsort_def)
  have "slice_to k ?top = ?top"
    using assms(4) len by (intro slice_to_all) simp
  then have res: "find_similar_articles argsort enc st text k = Inr ?res"
    using find_similar_articles_exact [OF assms(1) assms(2) assms(3), of k] by simp
  have labels: "map label ?res = ?top"
    by (simp add: comp_def)
  have in_range: "\<forall>i\<in>set ?top. i < length cells"
    using set_top by simp
  have "map similarity ?res = map (\<lambda>i. ?sims ! i) ?top"
    using in_range by (simp add: comp_def)
  also have "\<dots> = rev (map (\<lambda>i. ?sims ! i) (argsort ?sims))"
    by (simp add: rev_map)
  finally have sims: "map similarity ?res = rev (map (\<lambda>i. ?sims ! i) (argsort ?sims))" .
  have "sorted (map (\<lambda>i. ?sims ! i) (argsort ?sims))"
    using a by (simp add: is_argsort_def)
  then have "sorted_wrt (\<ge>) (rev (map (\<lambda>i. ?sims ! i) (argsort ?sims)))"
    by (simp only: sorted_wrt_rev)
  then have ordered: "sorted_wrt (\<ge>) (map similarity ?res)"
    by (simp only: sims)
  have "length ?res = length cells"
    by (simp add: is_argsort_length [OF a])
  moreover have "distinct (map label ?res)"
    by (simp only: labels dist)
  moreover have "set (map label ?res) = {0..<length cells}"
    by (simp only: labels set_top)
  moreover have "\<forall>r\<in>set ?res. similarity r = cosine (enc text) (cells ! label r) \<and>
                   art r = rows t ! label r"
    by auto
  ultimately show ?thesis using res ordered by blast
qed

theorem exact_search_all_rows_once_witness:
  "\<exists>res. find_similar_articles stable_argsort demo_enc demo_finder ''q'' 5 = Inr res \<and>
         length res = 3 \<and> set (map label res) = {0..<3}"
proof -
  have a: "\<forall>xs. is_argsort xs (stable_argsort xs)" by (rule stable_argsort_is_argsort)
  have i: "index demo_finder = None" by (simp add: demo_finder_def)
  have k: "int (length demo_cells) \<le> 5" by (simp add: demo_cells_def)
  have "length demo_cells = 3" by (simp add: demo_cells_def)
  then show ?thesis
    using exact_search_all_rows_once [OF a i demo_ready k, of "''q''"] by auto
qed


text \<open>
  With the other argsort the same search ranks row 0 before row 1: the order of rows
  of equal similarity is the order \<open>argsort\<close> gives them, reversed.
\<close>

lemma exact_search_other_tie_order:
  "map_sum id (map label)
     (find_similar_articles reversed_ties_argsort demo_enc demo_finder ''q'' 3) = Inr [2, 0, 1]"
proof -
  have i: "index demo_finder = None" by (simp add: demo_finder_def)
  have c: "map (cosine (demo_enc ''q'')) demo_cells = [0, 0, 1]" by (rule cosine_demo)
  have r: "reversed_ties_argsort [0, 0, 1] = [1, 0, 2]"
    by (simp add: reversed_ties_argsort_def upt_conv_Cons)
  show ?thesis
    unfolding find_similar_articles_exact [OF reversed_ties_argsort_is_argsort i demo_ready] c r
    by (simp add: slice_to_def comp_def)
qed



subsection \<open>Norms and the similarity the index search reports\<close>

lemma l2_sqr_expand:
  "length a = length b \<Longrightarrow>
   l2_sqr a b = (\<Sum>x\<leftarrow>a. x * x) + (\<Sum>y\<leftarrow>b. y * y) - 2 * dot a b"
  by (induction a b rule: list_induct2) (simp_all add: l2_sqr_def dot_def algebra_simps)

lemma l2_norm_one_iff: "l2_norm v = 1 \<longleftrightarrow> (\<Sum>x\<leftarrow>v. x * x) = 1"
  by (simp add: l2_norm_def)


lemma sum_squares_nonneg: "0 \<le> (\<Sum>x\<leftarrow>v. x * x)" for v :: vec
  by (induction v) simp_all

lemma sum_squares_scale: "(\<Sum>x\<leftarrow>map (\<lambda>x. x * c) v. x * x) = c * c * (\<Sum>x\<leftarrow>v. x * x)" for v :: vec
  by (induction v) (simp_all add: algebra_simps)

lemma l2_norm_scale: "l2_norm (map (\<lambda>x. x * c) v) = \<bar>c\<bar> * l2_norm v"
  unfolding l2_norm_def sum_squares_scale by (simp add: real_sqrt_mult)

lemma l2_norm_nonneg: "0 \<le> l2_norm v"
  by (simp add: l2_norm_def sum_squares_nonneg)

lemma l2_norm_normalize_query: "l2_norm v \<noteq> 0 \<Longrightarrow> l2_norm (normalize_query v) = 1"
proof -
  assume nz: "l2_norm v \<noteq> 0"
  have "normalize_query v = map (\<lambda>x. x * (1 / l2_norm v)) v"
    by (simp add: normalize_query_def)
  then have "l2_norm (normalize_query v) = \<bar>1 / l2_norm v\<bar> * l2_norm v"
    by (simp only: l2_norm_scale)
  then show ?thesis using nz l2_norm_nonneg [of v] by simp
qed

lemma l2_norm_normalize_L2_row: "l2_norm v \<noteq> 0 \<Longrightarrow> l2_norm (normalize_L2_row v) = 1"
proof -
  assume nz: "l2_norm v \<noteq> 0"
  then have pos: "(\<Sum>x\<leftarrow>v. x * x) > 0"
    using sum_squares_nonneg [of v] by (cases "(\<Sum>x\<leftarrow>v. x * x) = 0") (auto simp: l2_norm_def)
  then have "normalize_L2_row v = map (\<lambda>x. x * (1 / l2_norm v)) v"
    by (simp add: normalize_L2_row_def l2_norm_def)
  then have "l2_norm (normalize_L2_row v) = \<bar>1 / l2_norm v\<bar> * l2_norm v"
    by (simp only: l2_norm_scale)
  then show ?thesis using nz l2_norm_nonneg [of v] by simp
qed

lemma normalize_L2_row_zero: "l2_norm v = 0 \<Longrightarrow> normalize_L2_row v = v"
  by (simp add: normalize_L2_row_def l2_norm_def)

text \<open>
  The score the index branch attaches to a row \<open>r\<close> (the query normalised on line 156,
  the row by \<open>build_index\<close>) is the cosine similarity the exact branch computes, when
  neither vector is zero.
\<close>

lemma sk_normalize_nonzero: "l2_norm v \<noteq> 0 \<Longrightarrow> sk_normalize v = normalize_query v"
  by (simp add: sk_normalize_def normalize_query_def)

lemma normalize_L2_row_nonzero: "l2_norm v \<noteq> 0 \<Longrightarrow> normalize_L2_row v = normalize_query v"
proof -
  assume nz: "l2_norm v \<noteq> 0"
  then have "(\<Sum>x\<leftarrow>v. x * x) > 0"
    using sum_squares_nonneg [of v] by (cases "(\<Sum>x\<leftarrow>v. x * x) = 0") (auto simp: l2_norm_def)
  then show ?thesis
    by (simp add: normalize_L2_row_def normalize_query_def l2_norm_def divide_inverse)
qed

lemma index_score_is_cosine:
  assumes "length q = length r" and "l2_norm q \<noteq> 0" and "l2_norm r \<noteq> 0"
  shows "approx_similarity (l2_sqr (normalize_query q) (normalize_L2_row r)) = cosine q r"
proof -
  let ?a = "normalize_query q" and ?b = "normalize_query r"
  have len: "length ?a = length ?b" using assms(1) by (simp add: normalize_query_def)
  have a: "(\<Sum>x\<leftarrow>?a. x * x) = 1" and b: "(\<Sum>x\<leftarrow>?b. x * x) = 1"
    using l2_norm_normalize_query [OF assms(2)] l2_norm_normalize_query [OF assms(3)]
    by (simp_all add: l2_norm_one_iff)
  have "l2_sqr ?a ?b = 2 - 2 * dot ?a ?b"
    by (simp add: l2_sqr_expand [OF len] a b)
  then have "approx_similarity (l2_sqr ?a ?b) = dot ?a ?b"
    by (simp add: approx_similarity_def diff_divide_distrib)
  then show ?thesis
    by (simp add: cosine_def sk_normalize_nonzero normalize_L2_row_nonzero assms(2,3))
qed



subsection \<open>The index search\<close>

lemma iloc_append:
  "iloc rs xs = Inr a \<Longrightarrow> iloc rs ys = Inr b \<Longrightarrow> iloc rs (xs @ ys) = Inr (a @ b)"
  by (induction xs arbitrary: a) (auto split: sum.splits)

lemma iloc_last:
  "rs \<noteq> [] \<Longrightarrow> iloc rs (replicate m (- 1)) =
     Inr (replicate m (length rs - 1, rs ! (length rs - 1)))"
proof (induction m)
  case 0
  then show ?case by simp
next
  case (Suc m)
  have "iloc1 rs (- 1) = Inr (length rs - 1, rs ! (length rs - 1))"
    using Suc.prems by (cases rs) (simp_all add: iloc1_def Let_def nat_diff_distrib)
  then show ?case using Suc by simp
qed

lemma find_similar_articles_faiss:
  assumes "index_ready enc st text t idx" and "1 \<le> k" and "xb idx \<noteq> []"
  shows "find_similar_articles argsort enc st text k =
           Inr (map (\<lambda>i. \<lparr>label = i, art = rows t ! i,
                          similarity = approx_similarity (l2_sqr (normalize_query (enc text)) (xb idx ! i))\<rparr>)
                  (take (nat k) (stable_argsort (map (l2_sqr (normalize_query (enc text))) (xb idx))))
                @ replicate (nat k - length (xb idx))
                    \<lparr>label = length (xb idx) - 1, art = rows t ! (length (xb idx) - 1),
                     similarity = approx_similarity FLT_MAX\<rparr>)"
proof -
  let ?q = "normalize_query (enc text)"
  let ?ds = "map (l2_sqr ?q) (xb idx)"
  let ?found = "take (nat k) (stable_argsort ?ds)"
  let ?missing = "nat k - length ?found"
  let ?n = "length (xb idx)"
  have i: "index st = Some idx" and d: "df st = Some t" and len: "length (rows t) = ?n"
    and dm: "index_d idx = length (enc text)"
    using assms(1) by (simp_all add: index_ready_def)
  have p: "is_argsort ?ds (stable_argsort ?ds)"
    using stable_argsort_is_argsort by simp
  have found: "\<forall>i\<in>set ?found. i < ?n"
    using is_argsort_in_range [OF p] by (auto dest!: in_set_takeD)
  have search: "index_search idx ?q k =
          Inr (map (\<lambda>i. ?ds ! i) ?found @ replicate ?missing FLT_MAX,
               map int ?found @ replicate ?missing (- 1))"
    using assms(2) dm by (simp add: index_search_def Let_def normalize_query_def)
  have rows_ne: "rows t \<noteq> []" using len assms(3) by auto
  have il: "iloc (rows t) (map int ?found @ replicate ?missing (- 1)) =
          Inr (map (\<lambda>i. (i, rows t ! i)) ?found
               @ replicate ?missing (length (rows t) - 1, rows t ! (length (rows t) - 1)))"
    using found len by (intro iloc_append iloc_nat iloc_last rows_ne) simp
  have "find_similar_articles argsort enc st text k =
          Inr (map (\<lambda>((l, a), s). \<lparr>label = l, art = a, similarity = s\<rparr>)
                 (zip (map (\<lambda>i. (i, rows t ! i)) ?found
                        @ replicate ?missing (length (rows t) - 1, rows t ! (length (rows t) - 1)))
                      (map approx_similarity (map (\<lambda>i. ?ds ! i) ?found @ replicate ?missing FLT_MAX))))"
    unfolding find_similar_articles_def encode_text_def Let_def
    using i d search il by simp
  also have "zip (map (\<lambda>i. (i, rows t ! i)) ?found
                   @ replicate ?missing (length (rows t) - 1, rows t ! (length (rows t) - 1)))
                 (map approx_similarity (map (\<lambda>i. ?ds ! i) ?found @ replicate ?missing FLT_MAX)) =
             map (\<lambda>i. ((i, rows t ! i), approx_similarity (?ds ! i))) ?found
               @ replicate ?missing ((length (rows t) - 1, rows t ! (length (rows t) - 1)),
                                     approx_similarity FLT_MAX)"
    by (simp add: zip_map_map zip_same_conv_map zip_replicate)
  finally show ?thesis
    using found by (simp add: len is_argsort_length [OF p])
qed

lemma demo_indexed_eq:
  "demo_indexed = \<lparr>embeddings = Some [[0, 1], [0, 1], [1, 0]], df = Some demo_table,
                    index = Some \<lparr>index_d = 2, xb = [[0, 1], [0, 1], [1, 0]]\<rparr>\<rparr>"
  by (simp add: demo_indexed_def build_index_def demo_finder_def demo_cells_def
      normalize_L2_row_def width_def Let_def)

lemma demo_index_ready:
  "index_ready demo_enc demo_indexed q demo_table \<lparr>index_d = 2, xb = [[0, 1], [0, 1], [1, 0]]\<rparr>"
  by (simp add: index_ready_def demo_indexed_eq demo_table_def demo_rows_def demo_enc_def
      l2_norm_def)

text \<open>
  C2: the corpus of three rows with the index built and \<open>top_k = 5\<close>. The search
  returns 5 rows where the claim says min(5, 3) = 3: faiss fills the two positions
  past the corpus with the label -1, and \<^verbatim>\<open>iloc\<close> reads -1 as the last row, so the
  rows 4 and 5 are the article of label 2 again, with the similarity
  \<open>1 - FLT_MAX / 2\<close>. The exact search on the same corpus with the same \<open>top_k\<close>
  returns 3 rows.
\<close>

theorem index_search_pads_past_corpus:
  "map_sum id (\<lambda>res. (length res, map label (drop 3 res), map similarity (drop 3 res)))
     (find_similar_articles stable_argsort demo_enc demo_indexed ''q'' 5) =
     Inr (5, [2, 2], [approx_similarity FLT_MAX, approx_similarity FLT_MAX]) \<and>
   map_sum id length (find_similar_articles stable_argsort demo_enc demo_finder ''q'' 5) = Inr 3"
proof -
  have i: "index demo_finder = None" by (simp add: demo_finder_def)
  have p: "is_argsort xs (stable_argsort xs)" for xs
    using stable_argsort_is_argsort by simp
  have n: "length (stable_argsort [a, b, c]) = 3" for a b c :: real
    using is_argsort_length [OF p, of "[a, b, c]"] by simp
  have "map_sum id (\<lambda>res. (length res, map label (drop 3 res), map similarity (drop 3 res)))
          (find_similar_articles stable_argsort demo_enc demo_indexed ''q'' 5) =
          Inr (5, [2, 2], [approx_similarity FLT_MAX, approx_similarity FLT_MAX])"
    by (simp add: find_similar_articles_faiss [OF demo_index_ready] n numeral_2_eq_2)
  moreover have "map_sum id length
                   (find_similar_articles stable_argsort demo_enc demo_finder ''q'' 5) = Inr 3"
    unfolding find_similar_articles_exact [OF stable_argsort_is_argsort i demo_ready] cosine_demo
      stable_argsort_demo
    by (simp add: slice_to_def)
  ultimately show ?thesis by simp
qed

text \<open>
  With an index built from the corpus vectors \<open>cells\<close>, none of them zero, a query
  vector that is not zero and \<open>top_k\<close> between 1 and the number of rows, the index
  search returns the best rows, best first, with their cosine similarities.
\<close>

lemma index_search_top_k:
  assumes "index_ready enc st text t idx" and "xb idx = map normalize_L2_row cells"
    and "\<forall>r\<in>set cells. l2_norm r \<noteq> 0 \<and> length r = length (enc text)"
    and "1 \<le> k" and "k \<le> int (length cells)"
  shows "\<exists>res. find_similar_articles argsort enc st text k = Inr res \<and>
           top_k_ranking k (enc text) (rows t) cells res"
proof -
  let ?q = "enc text"
  let ?qn = "normalize_query ?q"
  let ?ds = "map (l2_sqr ?qn) (xb idx)"
  let ?sims = "map (cosine ?q) cells"
  let ?p = "stable_argsort ?ds"
  let ?row = "\<lambda>i. \<lparr>label = i, art = rows t ! i, similarity = cosine ?q (cells ! i)\<rparr>"
  let ?rowF = "\<lambda>i. \<lparr>label = i, art = rows t ! i,
                      similarity = approx_similarity (l2_sqr ?qn (xb idx ! i))\<rparr>"
  have qz: "l2_norm ?q \<noteq> 0"
    using assms(1) by (simp add: index_ready_def)
  have len: "length (xb idx) = length cells"
    by (simp add: assms(2))
  have ne: "xb idx \<noteq> []"
    using assms(4,5) len by auto
  have k0: "0 \<le> k" using assms(4) by simp
  have p: "is_argsort ?ds ?p"
    using stable_argsort_is_argsort by simp
  have in_range: "i < length cells" if "i \<in> set ?p" for i
    using is_argsort_in_range [OF p that] len by simp
  have score: "approx_similarity (l2_sqr ?qn (xb idx ! i)) = cosine ?q (cells ! i)"
    if "i < length cells" for i
  proof -
    have "cells ! i \<in> set cells" using that by simp
    then have "l2_norm (cells ! i) \<noteq> 0" and "length ?q = length (cells ! i)"
      using assms(3) by auto
    then show ?thesis
      using that qz by (simp add: assms(2) index_score_is_cosine)
  qed
  have dist: "?ds ! i = 2 - 2 * (?sims ! i)" if "i < length cells" for i
    using score [OF that] that len by (simp add: approx_similarity_def field_simps)
  have "sorted_wrt (\<lambda>a b. ?ds ! a \<le> ?ds ! b) ?p"
    using p by (simp add: is_argsort_def sorted_map)
  then have "sorted_wrt (\<lambda>a b. ?sims ! b \<le> ?sims ! a) ?p"
  proof (rule sorted_wrt_mono_rel [rotated])
    fix a b
    assume "a \<in> set ?p" and "b \<in> set ?p" and "?ds ! a \<le> ?ds ! b"
    then show "?sims ! b \<le> ?sims ! a"
      using dist [OF in_range, of a] dist [OF in_range, of b] by simp
  qed
  then have "sorted (map (\<lambda>i. ?sims ! i) (rev ?p))"
    by (simp add: sorted_map sorted_wrt_rev)
  then have rp: "is_argsort ?sims (rev ?p)"
    using p len by (simp add: is_argsort_def)
  have top: "top_k_ranking k ?q (rows t) cells (map ?row (take (nat k) (rev (rev ?p))))"
    by (rule reversed_argsort_top_k [OF rp k0])
  have pad: "nat k - length (xb idx) = 0"
    using assms(5) len by simp
  have "find_similar_articles argsort enc st text k = Inr (map ?rowF (take (nat k) ?p))"
    using find_similar_articles_faiss [OF assms(1,4) ne, of argsort] by (simp add: pad)
  also have "map ?rowF (take (nat k) ?p) = map ?row (take (nat k) ?p)"
    by (rule map_cong) (auto dest!: in_set_takeD in_range simp: score)
  finally show ?thesis
    using top by simp
qed

subsection \<open>Loading and cleaning the table\<close>

lemma drop_seen_snoc:
  "drop_seen seen (xs @ [x]) =
     drop_seen seen xs @
       (if truncated_text x \<in> set seen \<union> truncated_text ` set xs then [] else [x])"
  by (induction xs arbitrary: seen) auto

lemma select_rows_snoc:
  assumes "\<And>i. i < length xs \<Longrightarrow> P i = Q i"
  shows "select_rows P (xs @ [x]) = select_rows Q xs @ (if P (length xs) then [x] else [])"
proof -
  have "filter P [0..<length xs] = filter Q [0..<length xs]"
    using assms by (intro filter_cong) auto
  moreover have "map (\<lambda>i. (xs @ [x]) ! i) (filter Q [0..<length xs]) =
                 map (\<lambda>i. xs ! i) (filter Q [0..<length xs])"
    by (intro map_cong) (auto simp: nth_append)
  ultimately show ?thesis by (simp add: select_rows_def)
qed

lemma kept_snoc_old: "i < length xs \<Longrightarrow> kept (xs @ [x]) i = kept xs i"
  by (auto simp: kept_def nth_append)

lemma kept_snoc_new:
  "kept (xs @ [x]) (length xs) \<longleftrightarrow>
     complete_row x \<and> truncated_text x \<notin> truncated_text ` set (dropna xs)"
proof -
  have "(\<forall>j\<in>set [0..<length xs].
           complete_row (xs ! j) \<longrightarrow> truncated_text (xs ! j) \<noteq> truncated_text x) \<longleftrightarrow>
        truncated_text x \<notin> truncated_text ` set (dropna xs)"
  proof
    assume a: "\<forall>j\<in>set [0..<length xs].
                 complete_row (xs ! j) \<longrightarrow> truncated_text (xs ! j) \<noteq> truncated_text x"
    show "truncated_text x \<notin> truncated_text ` set (dropna xs)"
    proof
      assume "truncated_text x \<in> truncated_text ` set (dropna xs)"
      then obtain r where "r \<in> set xs" and "complete_row r" and "truncated_text r = truncated_text x"
        by (auto simp: dropna_def)
      then obtain j where "j < length xs" and "xs ! j = r"
        by (auto simp: in_set_conv_nth)
      then show False
        using a \<open>complete_row r\<close> \<open>truncated_text r = truncated_text x\<close> by auto
    qed
  next
    assume b: "truncated_text x \<notin> truncated_text ` set (dropna xs)"
    show "\<forall>j\<in>set [0..<length xs].
            complete_row (xs ! j) \<longrightarrow> truncated_text (xs ! j) \<noteq> truncated_text x"
    proof (intro ballI impI)
      fix j
      assume "j \<in> set [0..<length xs]" and c: "complete_row (xs ! j)"
      then have "xs ! j \<in> set (dropna xs)"
        by (simp add: dropna_def)
      then show "truncated_text (xs ! j) \<noteq> truncated_text x"
        using b by (metis imageI)
    qed
  qed
  then show ?thesis by (simp add: kept_def nth_append)
qed

lemma clean_is_select: "drop_duplicates (dropna t) = select_rows (kept t) t"
proof (induction t rule: rev_induct)
  case Nil
  then show ?case by (simp add: drop_duplicates_def dropna_def select_rows_def)
next
  case (snoc x xs)
  have "drop_duplicates (dropna (xs @ [x])) =
          drop_duplicates (dropna xs) @
            (if complete_row x \<and> truncated_text x \<notin> truncated_text ` set (dropna xs) then [x] else [])"
    by (simp add: drop_duplicates_def dropna_def drop_seen_snoc)
  also have "\<dots> = select_rows (kept xs) xs @ (if kept (xs @ [x]) (length xs) then [x] else [])"
    by (simp only: snoc.IH kept_snoc_new)
  also have "\<dots> = select_rows (kept (xs @ [x])) (xs @ [x])"
    by (rule select_rows_snoc [symmetric]) (rule kept_snoc_old)
  finally show ?case .
qed

text \<open>
  C5 (amended): whichever of the two encodings yields the table \<open>t\<close>, \<open>load_data\<close> returns
  the rows of \<open>t\<close> that miss neither the text nor the identifier and whose text does not
  occur on an earlier row that itself misses neither field, in the order of \<open>t\<close>:
  the first complete occurrence of every text is kept.
\<close>

theorem load_data_keeps_first_complete_rows:
  assumes "read_csv p Utf8Sig = Inr t \<or> (isl (read_csv p Utf8Sig) \<and> read_csv p Utf16 = Inr t)"
  shows "snd (load_data read_csv p) = Inr (select_rows (kept t) t)"
  using assms by (auto simp: load_data_def clean_is_select isl_def)

theorem load_data_keeps_first_complete_rows_witness:
  "snd (load_data (read_utf16 dup_table) ''corpus.csv'') = Inr [dup_table ! 1]"
proof -
  have h: "read_utf16 dup_table ''corpus.csv'' Utf8Sig = Inr dup_table \<or>
           (isl (read_utf16 dup_table ''corpus.csv'' Utf8Sig) \<and>
            read_utf16 dup_table ''corpus.csv'' Utf16 = Inr dup_table)"
    by (simp add: read_utf16_def)
  have "select_rows (kept dup_table) dup_table = [dup_table ! 1]"
    by (simp add: select_rows_def kept_def dup_table_def complete_row_def upt_conv_Cons)
  then show ?thesis
    using load_data_keeps_first_complete_rows [of "read_utf16 dup_table" "''corpus.csv''" dup_table] h
    by simp
qed

text \<open>
  C5, as the claim states it, on a table whose first row has the text A and no
  identifier and whose second row has the text A: the claim drops both rows (the
  second one duplicates the text of an earlier row), \<open>load_data\<close> returns the second.
\<close>

theorem load_data_duplicate_of_incomplete_row:
  "snd (load_data (read_utf8 dup_table) ''corpus.csv'') = Inr [dup_table ! 1] \<and>
   select_rows (kept_as_claimed dup_table) dup_table = []"
  by (simp add: load_data_def read_utf8_def drop_duplicates_def dropna_def complete_row_def
      dup_table_def select_rows_def kept_as_claimed_def upt_conv_Cons)

subsection \<open>Batch encoding, the cache and the encoding fallback\<close>

lemma concat_encode_batches:
  "0 < b \<Longrightarrow> concat (encode_batches enc texts b i) = map enc (drop i texts)"
proof (induction enc texts b i rule: encode_batches.induct)
  case (1 enc texts b i)
  show ?case
  proof (cases "i < length texts")
    case True
    have "concat (encode_batches enc texts b i) =
            map enc (take b (drop i texts)) @ concat (encode_batches enc texts b (i + b))"
      using True "1.prems" by (subst encode_batches.simps) (simp add: model_forward_def)
    also have "\<dots> = map enc (take b (drop i texts)) @ map enc (drop (i + b) texts)"
      using "1.IH" True "1.prems" by simp
    also have "\<dots> = map enc (take b (drop i texts) @ drop b (drop i texts))"
      by (simp add: add.commute)
    also have "\<dots> = map enc (drop i texts)"
      by (simp only: append_take_drop_id)
    finally show ?thesis .
  next
    case False
    then show ?thesis by (subst encode_batches.simps) simp
  qed
qed

lemma encode_batches_nonempty:
  "0 < b \<Longrightarrow> i < length texts \<Longrightarrow> encode_batches enc texts b i \<noteq> []"
  by (subst encode_batches.simps) simp

lemma batch_encode_texts_empty: "batch_encode_texts enc [] b = Inl ValueError"
  by (simp add: batch_encode_texts_def np_concatenate_def encode_batches.simps [of enc "[]"])

text \<open>
  C6: for every list of texts, every batch size \<open>b\<close> of at least 1 and every position
  \<open>i\<close> of the list, \<open>batch_encode_texts\<close> returns a matrix with one row per text whose
  row \<open>i\<close> is \<open>encode_text\<close> of the text at \<open>i\<close>; the encoder works item by item
  (\<open>model_forward\<close>). The batch size does not occur in the rows.
\<close>

theorem batch_encode_texts_itemwise:
  assumes "1 \<le> b" and "i < length texts"
  shows "\<exists>out. batch_encode_texts enc texts b = Inr out \<and> length out = length texts \<and>
           out ! i = encode_text enc (texts ! i)"
proof -
  have b: "0 < nat b" using assms(1) by simp
  have "batch_encode_texts enc texts b = np_concatenate (encode_batches enc texts (nat b) 0)"
    using assms(1) by (simp add: batch_encode_texts_def)
  also have "\<dots> = Inr (concat (encode_batches enc texts (nat b) 0))"
  proof -
    have "0 < length texts" using assms(2) by auto
    then have "encode_batches enc texts (nat b) 0 \<noteq> []"
      by (rule encode_batches_nonempty [OF b])
    then show ?thesis by (simp add: np_concatenate_def)
  qed
  also have "concat (encode_batches enc texts (nat b) 0) = map enc texts"
    using concat_encode_batches [OF b, of enc texts 0] by simp
  finally have "batch_encode_texts enc texts b = Inr (map enc texts)" .
  then show ?thesis using assms(2) by (simp add: encode_text_def)
qed

theorem batch_encode_texts_itemwise_witness:
  "\<exists>out. batch_encode_texts demo_enc [''A'', ''B'', ''C''] 2 = Inr out \<and> length out = 3 \<and>
         out ! 2 = encode_text demo_enc ''C''"
proof -
  have b: "(1::int) \<le> 2" by simp
  have i: "2 < length [''A'', ''B'', ''C'']" by simp
  show ?thesis
    using batch_encode_texts_itemwise [OF b i, of demo_enc] by (simp add: numeral_3_eq_3)
qed

text \<open>
  C7: for every state \<open>st\<close>, path and file system, \<open>cache_embeddings\<close> followed by
  \<open>load_cached_embeddings\<close> from the same path (into any object \<open>st'\<close>) reports a hit
  and yields the corpus of \<open>st\<close>: the same articles, the same values in the embedding
  cells, the same embedding matrix.
\<close>

theorem cache_round_trip:
  "fst (load_cached_embeddings st' p (cache_embeddings st p fs)) \<and>
   corpus_of (snd (load_cached_embeddings st' p (cache_embeddings st p fs))) = corpus_of st"
proof -
  let ?c = "\<lparr>c_df = map_option (pickle_df st) (df st), c_embeddings = embeddings st\<rparr>"
  let ?st = "st'\<lparr>df := c_df ?c, embeddings := c_embeddings ?c\<rparr>"
  have load: "load_cached_embeddings st' p (cache_embeddings st p fs) = (True, ?st)"
    by (simp add: load_cached_embeddings_def cache_embeddings_def)
  have "embedding_values ?st (pickle_df st t) = embedding_values st t" for t
    by (cases "embedding t")
       (simp_all add: embedding_values_def pickle_df_def column_values_def)
  then have "corpus_of ?st = corpus_of st"
    by (cases "df st") (simp_all add: corpus_of_def pickle_df_def)
  then show ?thesis by (simp add: load)
qed

text \<open>
  C8: \<open>load_data\<close> tries UTF-8 with byte-order mark first and nothing else when it
  succeeds; when that read fails it tries UTF-16, once, and returns what that read
  gives; when both fail the second exception is the result, no further encoding is
  tried, and \<open>main\<close> ends with that exception without any corpus.
\<close>

theorem load_data_encoding_fallback:
  "fst (load_data read_csv p) \<in> {[Utf8Sig], [Utf8Sig, Utf16]} \<and>
   (read_csv p Utf8Sig = Inr t \<longrightarrow>
      load_data read_csv p = ([Utf8Sig], Inr (drop_duplicates (dropna t)))) \<and>
   (read_csv p Utf8Sig = Inl e \<longrightarrow>
      fst (load_data read_csv p) = [Utf8Sig, Utf16] \<and>
      snd (load_data read_csv p) = map_sum id (\<lambda>t. drop_duplicates (dropna t)) (read_csv p Utf16)) \<and>
   (read_csv p Utf8Sig = Inl e \<and> read_csv p Utf16 = Inl e' \<longrightarrow>
      load_data read_csv p = ([Utf8Sig, Utf16], Inl e') \<and>
      (data_file a = p \<longrightarrow> main argsort read_csv enc faiss a demo_text fs = Inl e'))"
  by (cases "read_csv p Utf8Sig"; cases "read_csv p Utf16")
     (auto simp: load_data_def main_def)

theorem load_data_encoding_fallback_witness:
  "load_data (read_utf8 dup_table) ''corpus.csv'' = ([Utf8Sig], Inr [dup_table ! 1]) \<and>
   load_data (read_utf16 dup_table) ''corpus.csv'' = ([Utf8Sig, Utf16], Inr [dup_table ! 1]) \<and>
   load_data read_fails ''corpus.csv'' = ([Utf8Sig, Utf16], Inl (ReadError 1)) \<and>
   main stable_argsort read_fails demo_enc True demo_args ''q'' Map.empty = Inl (ReadError 1)"
proof -
  have c: "drop_duplicates (dropna dup_table) = [dup_table ! 1]"
    by (simp add: drop_duplicates_def dropna_def complete_row_def dup_table_def)
  have h1: "read_utf8 dup_table ''corpus.csv'' Utf8Sig = Inr dup_table"
    by (simp add: read_utf8_def)
  have h2: "read_utf16 dup_table ''corpus.csv'' Utf8Sig = Inl (ReadError 0)"
    and h2': "read_utf16 dup_table ''corpus.csv'' Utf16 = Inr dup_table"
    by (simp_all add: read_utf16_def)
  have h3: "read_fails ''corpus.csv'' Utf8Sig = Inl (ReadError 0) \<and>
           read_fails ''corpus.csv'' Utf16 = Inl (ReadError 1)"
    by (simp add: read_fails_def)
  have h4: "data_file demo_args = ''corpus.csv''" by (simp add: demo_args_def)
  show ?thesis
    using load_data_encoding_fallback [of "read_utf8 dup_table" "''corpus.csv''" dup_table]
      load_data_encoding_fallback [of "read_utf16 dup_table" "''corpus.csv''" _ "ReadError 0"]
      load_data_encoding_fallback [of read_fails "''corpus.csv''" _ "ReadError 0" "ReadError 1"
        demo_args stable_argsort demo_enc True "''q''" Map.empty]
      h1 h2 h2' h3 h4 c
    by (simp add: prod_eq_iff)
qed

lemma demo_cached_eq:
  "demo_cached = \<lparr>embeddings = Some demo_cells,
                   df = Some \<lparr>rows = demo_rows, embedding = Some (Copies demo_cells)\<rparr>,
                   index = None\<rparr>"
  by (simp add: demo_cached_def load_cached_embeddings_def cache_embeddings_def init_def
      demo_finder_def demo_table_def pickle_df_def column_values_def)

text \<open>
  C10, as the claim states it, on the corpus read back from the cache: the cells of
  the table's embedding column are arrays of their own, and after \<open>build_index\<close> the
  second one is still \<open>[0, 2]\<close> while the second row of \<open>embeddings\<close> is \<open>[0, 1]\<close>; an
  exact search would read \<open>[0, 2]\<close>.
\<close>

theorem build_index_after_cache_load:
  "embeddings (build_index True demo_cached) = Some [[0, 1], [0, 1], [1, 0]] \<and>
   map_option (embedding_values (build_index True demo_cached)) (df (build_index True demo_cached)) =
     Some (Inr [[0, 1], [0, 2], [1, 0]])"
  by (simp add: demo_cached_eq build_index_def demo_cells_def normalize_L2_row_def Let_def
      embedding_values_def column_values_def)

text \<open>
  C10 (amended): with faiss imported and embeddings present, \<open>build_index\<close> replaces
  every row of \<open>embeddings\<close> by its \<open>normalize_L2_row\<close> image (of norm 1, or the row
  itself when it is zero), puts the same rows into the index, and leaves the table
  as it is; an embedding column of views then shows the normalised rows, so the exact
  search would read them, an embedding column of copies keeps its values, and a
  cache written afterwards holds the normalised matrix (and, for a column of views,
  the normalised cells).
\<close>

theorem build_index_normalizes_in_place:
  assumes "embeddings st = Some M"
  shows "embeddings (build_index True st) = Some (map normalize_L2_row M) \<and>
         index (build_index True st) = Some \<lparr>index_d = width M, xb = map normalize_L2_row M\<rparr> \<and>
         df (build_index True st) = df st \<and>
         (\<forall>r\<in>set M. if l2_norm r = 0 then normalize_L2_row r = r
                     else l2_norm (normalize_L2_row r) = 1) \<and>
         (embedding t = Some Views \<longrightarrow>
            embedding_values (build_index True st) t = Inr (map normalize_L2_row M)) \<and>
         (embedding t = Some (Copies cs) \<longrightarrow> embedding_values (build_index True st) t = Inr cs) \<and>
         map_option c_embeddings (cache_embeddings (build_index True st) p fs p) =
           Some (Some (map normalize_L2_row M)) \<and>
         (df st = Some t \<and> embedding t = Some Views \<longrightarrow>
            map_option c_df (cache_embeddings (build_index True st) p fs p) =
              Some (Some (t\<lparr>embedding := Some (Copies (map normalize_L2_row M))\<rparr>)))"
  using assms
  by (auto simp: build_index_def Let_def embedding_values_def column_values_def
      cache_embeddings_def pickle_df_def l2_norm_normalize_L2_row normalize_L2_row_zero)

theorem build_index_normalizes_in_place_witness:
  "embeddings (build_index True demo_finder) = Some [[0, 1], [0, 1], [1, 0]] \<and>
   embedding_values (build_index True demo_finder) demo_table = Inr [[0, 1], [0, 1], [1, 0]] \<and>
   l2_norm (normalize_L2_row [0, 2]) = 1"
proof -
  have e: "embeddings demo_finder = Some demo_cells" by (simp add: demo_finder_def)
  have v: "embedding demo_table = Some Views" by (simp add: demo_table_def)
  have n: "map normalize_L2_row demo_cells = [[0, 1], [0, 1], [1, 0]]"
    by (simp add: demo_cells_def normalize_L2_row_def)
  have r: "[0, 2] \<in> set demo_cells" and z: "l2_norm [0, 2] \<noteq> 0"
    by (simp_all add: demo_cells_def l2_norm_def)
  have "\<forall>r\<in>set demo_cells. if l2_norm r = 0 then normalize_L2_row r = r
                               else l2_norm (normalize_L2_row r) = 1"
    using build_index_normalizes_in_place [OF e] by blast
  then have "l2_norm (normalize_L2_row [0, 2]) = 1"
    using r z by (auto simp only: split: if_splits)
  then show ?thesis
    using build_index_normalizes_in_place [OF e, of demo_table] v n by simp
qed

text \<open>The round trip of C7 on the three-row corpus.\<close>

theorem cache_round_trip_witness:
  "corpus_of demo_cached = corpus_of demo_finder"
  unfolding demo_cached_def by (rule conjunct2 [OF cache_round_trip])

subsection \<open>Without faiss\<close>

lemma build_index_unavailable: "build_index False st = st"
  by (simp add: build_index_def split: option.split)

lemma batch_encode_texts_all:
  assumes "1 \<le> b" and "texts \<noteq> []"
  shows "batch_encode_texts enc texts b = Inr (map enc texts)"
proof -
  have b: "0 < nat b" using assms(1) by simp
  have "0 < length texts" using assms(2) by simp
  then have "encode_batches enc texts (nat b) 0 \<noteq> []"
    by (rule encode_batches_nonempty [OF b])
  moreover have "concat (encode_batches enc texts (nat b) 0) = map enc texts"
    using concat_encode_batches [OF b, of enc texts 0] by simp
  ultimately show ?thesis
    using assms(1) by (simp add: batch_encode_texts_def np_concatenate_def)
qed

lemma drop_seen_subset: "set (drop_seen seen rs) \<subseteq> set rs"
  by (induction rs arbitrary: seen) auto

lemma load_data_rows_complete:
  assumes "snd (load_data read_csv p) = Inr tbl"
  shows "\<forall>r\<in>set tbl. complete_row r"
proof -
  obtain t where "tbl = drop_duplicates (dropna t)"
    using assms by (auto simp: load_data_def split: sum.splits)
  then show ?thesis
    using drop_seen_subset [of "[]" "dropna t"] by (auto simp: drop_duplicates_def dropna_def)
qed

lemma build_index_ready:
  assumes "corpus_ready enc st text t cells" and "embeddings st = Some cells"
    and "l2_norm (enc text) \<noteq> 0"
  shows "index_ready enc (build_index True st) text t
           \<lparr>index_d = width cells, xb = map normalize_L2_row cells\<rparr>"
proof -
  have "cells \<noteq> []" and "\<forall>r\<in>set cells. length r = length (enc text)"
    using assms(1) by (simp_all add: corpus_ready_def)
  then have "width cells = length (enc text)"
    by (cases cells) (simp_all add: width_def)
  then show ?thesis
    using assms by (simp add: index_ready_def corpus_ready_def build_index_def Let_def)
qed

lemma zero_ready:
  "corpus_ready demo_enc zero_finder q \<lparr>rows = take 2 demo_rows, embedding = Some Views\<rparr>
     [[0, 0], [1, 0]]"
  by (simp add: corpus_ready_def zero_finder_def demo_rows_def demo_enc_def embedding_values_def
      column_values_def)

lemma zero_index_ready:
  "index_ready demo_enc (build_index True zero_finder) q
     \<lparr>rows = take 2 demo_rows, embedding = Some Views\<rparr>
     \<lparr>index_d = width [[0, 0], [1, 0]], xb = map normalize_L2_row [[0, 0], [1, 0]]\<rparr>"
proof -
  have e: "embeddings zero_finder = Some [[0, 0], [1, 0]]" by (simp add: zero_finder_def)
  have z: "l2_norm (demo_enc q) \<noteq> 0" by (simp add: demo_enc_def l2_norm_def)
  show ?thesis by (rule build_index_ready [OF zero_ready e z])
qed

text \<open>
  C9, as the claim states it: the same corpus and query searched with the index (faiss
  imported) and without one (the import failed). On the three-row corpus with
  \<open>top_k = 2\<close> the index search lists the rows 2 and 0, the fallback the rows 2 and 1;
  on the corpus with a zero vector the index search scores the zero row 1/2, the
  fallback 0.
\<close>

theorem index_run_differs_from_fallback:
  "map_sum id (map label) (find_similar_articles stable_argsort demo_enc
      (build_index True demo_finder) ''q'' 2) = Inr [2, 0] \<and>
   map_sum id (map label) (find_similar_articles stable_argsort demo_enc
      (build_index False demo_finder) ''q'' 2) = Inr [2, 1] \<and>
   map_sum id (map similarity) (find_similar_articles stable_argsort demo_enc
      (build_index True zero_finder) ''q'' 2) = Inr [1, 1 / 2] \<and>
   map_sum id (map similarity) (find_similar_articles stable_argsort demo_enc
      (build_index False zero_finder) ''q'' 2) = Inr [1, 0]"
proof -
  have i: "index demo_finder = None" and zi: "index zero_finder = None"
    by (simp_all add: demo_finder_def zero_finder_def)
  have s: "stable_argsort [2, 2, 0] = [2, 0, 1]"
    by (simp add: stable_argsort_def upt_conv_Cons)
  have 1: "map_sum id (map label) (find_similar_articles stable_argsort demo_enc
             (build_index True demo_finder) ''q'' 2) = Inr [2, 0]"
    using find_similar_articles_faiss [OF demo_index_ready, of 2 stable_argsort "''q''"]
    by (simp add: demo_indexed_def s numeral_2_eq_2 comp_def normalize_query_def demo_enc_def
        l2_norm_def l2_sqr_def)
  have 2: "map_sum id (map label) (find_similar_articles stable_argsort demo_enc
             (build_index False demo_finder) ''q'' 2) = Inr [2, 1]"
    unfolding build_index_unavailable
      find_similar_articles_exact [OF stable_argsort_is_argsort i demo_ready] cosine_demo
      stable_argsort_demo
    by (simp add: slice_to_def comp_def)
  have zc: "map (cosine (demo_enc ''q'')) [[0, 0], [1, 0]] = [0, 1]"
    by (simp add: demo_enc_def cosine_def sk_normalize_def l2_norm_def dot_def)
  have zs: "stable_argsort [0, 1] = [0, 1]"
    by (simp add: stable_argsort_def upt_conv_Cons)
  have zd: "map (l2_sqr (normalize_query (demo_enc ''q''))) (map normalize_L2_row [[0, 0], [1, 0]]) = [1, 0]"
    by (simp add: normalize_query_def normalize_L2_row_def demo_enc_def l2_norm_def l2_sqr_def)
  have zs': "stable_argsort [1, 0] = [1, 0]"
    by (simp add: stable_argsort_def upt_conv_Cons)
  have 3: "map_sum id (map similarity) (find_similar_articles stable_argsort demo_enc
             (build_index True zero_finder) ''q'' 2) = Inr [1, 1 / 2]"
    using find_similar_articles_faiss [OF zero_index_ready, of 2 stable_argsort "''q''"]
    by (simp add: zd zs' numeral_2_eq_2 comp_def approx_similarity_def
        normalize_query_def normalize_L2_row_def demo_enc_def l2_norm_def l2_sqr_def)
  have 4: "map_sum id (map similarity) (find_similar_articles stable_argsort demo_enc
             (build_index False zero_finder) ''q'' 2) = Inr [1, 0]"
    unfolding build_index_unavailable
      find_similar_articles_exact [OF stable_argsort_is_argsort zi zero_ready] zc zs
    by (simp add: slice_to_def comp_def demo_enc_def cosine_def sk_normalize_def l2_norm_def
        dot_def)
  show ?thesis using 1 2 3 4 by simp
qed

lemma main_encoded:
  assumes "snd (load_data read_csv (data_file a)) = Inr tbl" and "tbl \<noteq> []"
    and "fs (cache_file a) = None" and "1 \<le> batch_size a"
  shows "main argsort read_csv enc faiss a demo_text fs =
           (case find_similar_articles argsort enc
                   (if use_faiss a then build_index faiss (encoded_corpus enc tbl)
                    else encoded_corpus enc tbl) demo_text 5 of
              Inl e \<Rightarrow> Inl e
            | Inr results \<Rightarrow>
                Inr (if use_faiss a then build_index faiss (encoded_corpus enc tbl)
                     else encoded_corpus enc tbl,
                     cache_embeddings (encoded_corpus enc tbl) (cache_file a) fs, results))"
proof -
  define texts where "texts = map (\<lambda>r. the (truncated_text r)) tbl"
  define E where "E = map enc texts"
  have tl: "tolist tbl = Inr texts"
    using load_data_rows_complete [OF assms(1)]
    by (simp add: tolist_def complete_row_def texts_def)
  have enc: "batch_encode_texts enc texts (batch_size a) = Inr E"
    unfolding E_def using assms(2,4) by (intro batch_encode_texts_all) (simp_all add: texts_def)
  have miss: "load_cached_embeddings st (cache_file a) fs = (False, st)" for st
    using assms(3) by (simp add: load_cached_embeddings_def)
  have e: "encoded_corpus enc tbl =
             \<lparr>embeddings = Some E, df = Some \<lparr>rows = tbl, embedding = Some Views\<rparr>, index = None\<rparr>"
    by (simp add: encoded_corpus_def E_def texts_def)
  show ?thesis
    by (simp add: main_def assms(1) miss tl enc e init_def Let_def
        cong: sum.case_cong prod.case_cong if_cong)
qed

lemma encoded_corpus_ready:
  assumes "tbl \<noteq> []" and "enc text \<noteq> []" and "\<forall>s. length (enc s) = length (enc text)"
  shows "corpus_ready enc (encoded_corpus enc tbl) text \<lparr>rows = tbl, embedding = Some Views\<rparr>
           (map enc (map (\<lambda>r. the (truncated_text r)) tbl))"
  using assms
  by (simp add: corpus_ready_def embedding_values_def column_values_def encoded_corpus_def)

text \<open>
  The exact search and the index search on the same corpus and query, for a number of
  rows between 1 and the size of the corpus, when neither the query vector nor a
  corpus vector is zero: both return the best rows, best first, with the same
  sequence of similarities.
\<close>

lemma index_run_same_similarities:
  assumes "\<forall>xs. is_argsort xs (argsort xs)"
    and "index st = None" and "corpus_ready enc st text t cells"
    and "embeddings st = Some cells" and "1 \<le> k" and "k \<le> int (length cells)"
    and "l2_norm (enc text) \<noteq> 0" and "\<forall>r\<in>set cells. l2_norm r \<noteq> 0"
    and "find_similar_articles argsort enc st text k = Inr res"
    and "top_k_ranking k (enc text) (rows t) cells res"
  shows "\<exists>res'. find_similar_articles argsort enc (build_index True st) text k = Inr res' \<and>
           top_k_ranking k (enc text) (rows t) cells res' \<and>
           map similarity res' = map similarity res"
proof -
  let ?idx = "\<lparr>index_d = width cells, xb = map normalize_L2_row cells\<rparr>"
  have ready: "index_ready enc (build_index True st) text t ?idx"
    by (rule build_index_ready [OF assms(3,4,7)])
  have cells: "\<forall>r\<in>set cells. l2_norm r \<noteq> 0 \<and> length r = length (enc text)"
    using assms(3,8) by (simp add: corpus_ready_def)
  obtain res' where r: "find_similar_articles argsort enc (build_index True st) text k = Inr res'"
    and top: "top_k_ranking k (enc text) (rows t) cells res'"
    using index_search_top_k [OF ready _ cells assms(5,6), of argsort] by auto
  have "map similarity res' = map similarity res"
    using top assms(10) by (simp add: top_k_ranking_def)
  then show ?thesis
    using r top by simp
qed

lemma sqrt_25: "sqrt 25 = 5"
  by (rule real_sqrt_unique) simp_all

lemma five_cosines:
  "map (cosine (five_enc ''q'')) (map five_enc (map (\<lambda>r. the (truncated_text r)) five_rows)) =
     [1, 0, 3 / 5, 4 / 5, - 1]"
  by (simp add: five_rows_def five_enc_def cosine_def sk_normalize_def l2_norm_def dot_def sqrt_25)

lemma five_loaded: "snd (load_data (read_utf8 five_rows) p) = Inr five_rows"
  by (simp add: load_data_def read_utf8_def five_rows_def dropna_def complete_row_def
      drop_duplicates_def)

text \<open>
  C9 (amended): when the faiss import has failed, \<open>build_index\<close> changes nothing, so an
  index that was absent stays absent, and \<open>find_similar_articles\<close> on a corpus that is
  ready returns, without an error, the rows at the first \<open>top_k\<close> positions of the
  reversed argsort of the cosine similarities, which are the best rows, best first.
  The run with the index is not the same run: for \<open>top_k\<close> between 1 and the size of
  the corpus, when neither the query vector nor a corpus vector is zero, it also
  returns best rows, best first, with the same sequence of similarities (float32
  taken as the reals); the rows may differ where similarities are equal. The same
  holds of \<open>main\<close> on a table that is not empty, without a cache file and with a batch
  size of at least 1: without faiss it ends without an error in the encoded corpus
  with the 5 best rows (every row of a table of fewer than 5), and on a table of at
  least 5 rows the run with faiss ends with the same cache file and the same
  sequence of similarities.
\<close>

theorem faiss_unavailable_exact_search:
  assumes "\<forall>xs. is_argsort xs (argsort xs)"
    and "index st = None" and "corpus_ready enc st text t cells" and "0 \<le> k"
  shows "build_index False st = st \<and> index (build_index False st) = None \<and>
         (\<exists>res. find_similar_articles argsort enc (build_index False st) text k = Inr res \<and>
            map label res = take (nat k) (rev (argsort (map (cosine (enc text)) cells))) \<and>
            top_k_ranking k (enc text) (rows t) cells res \<and>
            (embeddings st = Some cells \<and> 1 \<le> k \<and> k \<le> int (length cells) \<and>
             l2_norm (enc text) \<noteq> 0 \<and> (\<forall>r\<in>set cells. l2_norm r \<noteq> 0) \<longrightarrow>
             (\<exists>res'. find_similar_articles argsort enc (build_index True st) text k = Inr res' \<and>
                top_k_ranking k (enc text) (rows t) cells res' \<and>
                map similarity res' = map similarity res))) \<and>
         (snd (load_data read_csv (data_file a)) = Inr tbl \<and> tbl \<noteq> [] \<and>
          fs (cache_file a) = None \<and> 1 \<le> batch_size a \<and>
          (\<forall>s. length (enc s) = length (enc text)) \<longrightarrow>
          (\<exists>res. main argsort read_csv enc False a text fs =
                   Inr (encoded_corpus enc tbl,
                        cache_embeddings (encoded_corpus enc tbl) (cache_file a) fs, res) \<and>
             top_k_ranking 5 (enc text) tbl
               (map enc (map (\<lambda>r. the (truncated_text r)) tbl)) res \<and>
             (use_faiss a \<and> 5 \<le> length tbl \<and> l2_norm (enc text) \<noteq> 0 \<and>
              (\<forall>r\<in>set tbl. l2_norm (enc (the (truncated_text r))) \<noteq> 0) \<longrightarrow>
              (\<exists>res'. main argsort read_csv enc True a text fs =
                        Inr (build_index True (encoded_corpus enc tbl),
                             cache_embeddings (encoded_corpus enc tbl) (cache_file a) fs, res') \<and>
                 top_k_ranking 5 (enc text) tbl
                   (map enc (map (\<lambda>r. the (truncated_text r)) tbl)) res' \<and>
                 map similarity res' = map similarity res))))"
proof -
  let ?sims = "map (cosine (enc text)) cells"
  let ?row = "\<lambda>i. \<lparr>label = i, art = rows t ! i, similarity = cosine (enc text) (cells ! i)\<rparr>"
  let ?top = "take (nat k) (rev (argsort ?sims))"
  have unavailable: "build_index False st = st"
    by (rule build_index_unavailable)
  have fallback: "find_similar_articles argsort enc st text k = Inr (map ?row ?top)"
    using find_similar_articles_exact [OF assms(1,2,3), of k] assms(4)
    by (simp add: slice_to_take)
  have labels: "map label (map ?row ?top) = ?top"
    by (simp add: comp_def)
  have top: "top_k_ranking k (enc text) (rows t) cells (map ?row ?top)"
    using assms(1) by (intro reversed_argsort_top_k [OF _ assms(4)]) simp
  have with_index:
    "\<exists>res'. find_similar_articles argsort enc (build_index True st) text k = Inr res' \<and>
            top_k_ranking k (enc text) (rows t) cells res' \<and>
            map similarity res' = map similarity (map ?row ?top)"
    if "embeddings st = Some cells" "1 \<le> k" "k \<le> int (length cells)"
      "l2_norm (enc text) \<noteq> 0" "\<forall>r\<in>set cells. l2_norm r \<noteq> 0"
    by (rule index_run_same_similarities [OF assms(1,2,3) that fallback top])
  have state_level:
    "\<exists>res. find_similar_articles argsort enc (build_index False st) text k = Inr res \<and>
        map label res = ?top \<and> top_k_ranking k (enc text) (rows t) cells res \<and>
        (embeddings st = Some cells \<and> 1 \<le> k \<and> k \<le> int (length cells) \<and>
         l2_norm (enc text) \<noteq> 0 \<and> (\<forall>r\<in>set cells. l2_norm r \<noteq> 0) \<longrightarrow>
         (\<exists>res'. find_similar_articles argsort enc (build_index True st) text k = Inr res' \<and>
            top_k_ranking k (enc text) (rows t) cells res' \<and>
            map similarity res' = map similarity res))"
    unfolding unavailable using fallback labels top with_index by blast
  have program:
    "\<exists>res. main argsort read_csv enc False a text fs =
             Inr (encoded_corpus enc tbl,
                  cache_embeddings (encoded_corpus enc tbl) (cache_file a) fs, res) \<and>
       top_k_ranking 5 (enc text) tbl (map enc (map (\<lambda>r. the (truncated_text r)) tbl)) res \<and>
       (use_faiss a \<and> 5 \<le> length tbl \<and> l2_norm (enc text) \<noteq> 0 \<and>
        (\<forall>r\<in>set tbl. l2_norm (enc (the (truncated_text r))) \<noteq> 0) \<longrightarrow>
        (\<exists>res'. main argsort read_csv enc True a text fs =
                  Inr (build_index True (encoded_corpus enc tbl),
                       cache_embeddings (encoded_corpus enc tbl) (cache_file a) fs, res') \<and>
           top_k_ranking 5 (enc text) tbl
             (map enc (map (\<lambda>r. the (truncated_text r)) tbl)) res' \<and>
           map similarity res' = map similarity res))"
    if load: "snd (load_data read_csv (data_file a)) = Inr tbl" and ne: "tbl \<noteq> []"
      and miss: "fs (cache_file a) = None" and b: "1 \<le> batch_size a"
      and w: "\<forall>s. length (enc s) = length (enc text)"
  proof -
    let ?E = "map enc (map (\<lambda>r. the (truncated_text r)) tbl)"
    let ?t = "\<lparr>rows = tbl, embedding = Some Views\<rparr>"
    let ?st = "encoded_corpus enc tbl"
    let ?fs = "cache_embeddings ?st (cache_file a) fs"
    let ?row5 = "\<lambda>i. \<lparr>label = i, art = rows ?t ! i, similarity = cosine (enc text) (?E ! i)\<rparr>"
    let ?res = "map ?row5 (take (nat 5) (rev (argsort (map (cosine (enc text)) ?E))))"
    have q: "enc text \<noteq> []"
      using assms(3) by (simp add: corpus_ready_def)
    have ready: "corpus_ready enc ?st text ?t ?E"
      by (rule encoded_corpus_ready [OF ne q w])
    have i: "index ?st = None" and e: "embeddings ?st = Some ?E"
      by (simp_all add: encoded_corpus_def)
    have search: "find_similar_articles argsort enc ?st text 5 = Inr ?res"
      using find_similar_articles_exact [OF assms(1) i ready, of 5] by (simp add: slice_to_take)
    have top5: "top_k_ranking 5 (enc text) (rows ?t) ?E ?res"
      using assms(1) by (intro reversed_argsort_top_k) simp_all
    have without: "main argsort read_csv enc False a text fs = Inr (?st, ?fs, ?res)"
      by (simp add: main_encoded [where fs = fs and a = a, OF load ne miss b] build_index_unavailable search)
    have "\<exists>res'. main argsort read_csv enc True a text fs =
                   Inr (build_index True ?st, ?fs, res') \<and>
            top_k_ranking 5 (enc text) tbl ?E res' \<and> map similarity res' = map similarity ?res"
      if f: "use_faiss a" and n: "5 \<le> length tbl" and z: "l2_norm (enc text) \<noteq> 0"
        and nz: "\<forall>r\<in>set tbl. l2_norm (enc (the (truncated_text r))) \<noteq> 0"
    proof -
      have k5: "(1::int) \<le> 5" by simp
      have n5: "5 \<le> int (length ?E)" using n by simp
      have nz': "\<forall>r\<in>set ?E. l2_norm r \<noteq> 0" using nz by simp
      obtain res' where r: "find_similar_articles argsort enc (build_index True ?st) text 5 = Inr res'"
        and t': "top_k_ranking 5 (enc text) (rows ?t) ?E res'"
        and s: "map similarity res' = map similarity ?res"
        using index_run_same_similarities [OF assms(1) i ready e k5 n5 z nz' search top5]
        by blast
      have "main argsort read_csv enc True a text fs = Inr (build_index True ?st, ?fs, res')"
        by (simp add: main_encoded [where fs = fs and a = a, OF load ne miss b] f r)
      then show ?thesis using t' s by simp
    qed
    then show ?thesis
      using without top5 by simp
  qed
  show ?thesis
    using unavailable assms(2) state_level program by simp
qed

theorem faiss_unavailable_exact_search_witness:
  "index (build_index False demo_finder) = None \<and>
   map_sum id (map label)
     (find_similar_articles stable_argsort demo_enc (build_index False demo_finder) ''q'' 2) =
     Inr [2, 1] \<and>
   map_sum id (map similarity)
     (find_similar_articles stable_argsort demo_enc (build_index False demo_finder) ''q'' 2) =
     Inr [1, 0] \<and>
   map_sum id (map similarity)
     (find_similar_articles stable_argsort demo_enc (build_index True demo_finder) ''q'' 2) =
     Inr [1, 0] \<and>
   map_sum id (map similarity \<circ> snd \<circ> snd)
     (main stable_argsort (read_utf8 five_rows) five_enc False demo_args ''q'' Map.empty) =
     Inr [1, 4 / 5, 3 / 5, 0, - 1] \<and>
   map_sum id (map similarity \<circ> snd \<circ> snd)
     (main stable_argsort (read_utf8 five_rows) five_enc True demo_args ''q'' Map.empty) =
     Inr [1, 4 / 5, 3 / 5, 0, - 1]"
proof -
  let ?E = "map five_enc (map (\<lambda>r. the (truncated_text r)) five_rows)"
  have a: "\<forall>xs. is_argsort xs (stable_argsort xs)" by (rule stable_argsort_is_argsort)
  have i: "index demo_finder = None" by (simp add: demo_finder_def)
  have k: "(0::int) \<le> 2" by simp
  have s: "take (nat 2) (rev (sort [0, 0, 1 :: real])) = [1, 0]"
    by (simp add: numeral_2_eq_2)
  have l: "take (nat 2) (rev (stable_argsort [0, 0, 1])) = [2, 1]"
    by (simp add: stable_argsort_demo numeral_2_eq_2)
  have s5: "take (nat 5) (rev (sort [1, 0, 3 / 5, 4 / 5, - 1 :: real])) = [1, 4 / 5, 3 / 5, 0, - 1]"
    by simp
  have state: "embeddings demo_finder = Some demo_cells \<and> (1::int) \<le> 2 \<and>
               2 \<le> int (length demo_cells) \<and> l2_norm (demo_enc ''q'') \<noteq> 0 \<and>
               (\<forall>r\<in>set demo_cells. l2_norm r \<noteq> 0)"
    by (simp add: demo_finder_def demo_cells_def demo_enc_def l2_norm_def)
  have program: "snd (load_data (read_utf8 five_rows) (data_file demo_args)) = Inr five_rows \<and>
                 five_rows \<noteq> [] \<and> Map.empty (cache_file demo_args) = None \<and>
                 1 \<le> batch_size demo_args \<and>
                 (\<forall>s. length (five_enc s) = length (five_enc ''q''))"
    by (simp add: five_loaded) (simp add: five_rows_def demo_args_def five_enc_def)
  have with_faiss: "use_faiss demo_args \<and> 5 \<le> length five_rows \<and> l2_norm (five_enc ''q'') \<noteq> 0 \<and>
                    (\<forall>r\<in>set five_rows. l2_norm (five_enc (the (truncated_text r))) \<noteq> 0)"
    by (simp add: demo_args_def five_rows_def five_enc_def l2_norm_def)
  note inst = faiss_unavailable_exact_search [OF a i demo_ready k, of "''q''"
      "read_utf8 five_rows" demo_args five_rows Map.empty]
  obtain res res' where none: "index (build_index False demo_finder) = None"
    and r: "find_similar_articles stable_argsort demo_enc (build_index False demo_finder) ''q'' 2 =
              Inr res"
    and lab: "map label res =
                take (nat 2) (rev (stable_argsort (map (cosine (demo_enc ''q'')) demo_cells)))"
    and top: "top_k_ranking 2 (demo_enc ''q'') (rows demo_table) demo_cells res"
    and r': "find_similar_articles stable_argsort demo_enc (build_index True demo_finder) ''q'' 2 =
               Inr res'"
    and same: "map similarity res' = map similarity res"
    using inst state by blast
  have labels: "map label res = [2, 1]"
    using lab by (simp only: cosine_demo l)
  have sims: "map similarity res = [1, 0]"
    using top unfolding top_k_ranking_def cosine_demo s by blast
  have e: "five_enc s \<noteq> []" for s
    by (simp add: five_enc_def)
  have w: "\<forall>s. length (five_enc s) = length (five_enc ''q'')"
    by (simp add: five_enc_def)
  have ne: "five_rows \<noteq> []" by (simp add: five_rows_def)
  have i5: "index (encoded_corpus five_enc five_rows) = None"
    by (simp add: encoded_corpus_def)
  have k5: "(0::int) \<le> 5" by simp
  obtain out out' stf fs' stf' fs''
    where m: "main stable_argsort (read_utf8 five_rows) five_enc False demo_args ''q'' Map.empty =
                Inr (stf, fs', out)"
      and top5: "top_k_ranking 5 (five_enc ''q'') five_rows ?E out"
      and m': "main stable_argsort (read_utf8 five_rows) five_enc True demo_args ''q'' Map.empty =
                 Inr (stf', fs'', out')"
      and same5: "map similarity out' = map similarity out"
    using faiss_unavailable_exact_search [OF a i5 encoded_corpus_ready [OF ne e w] k5,
        of "read_utf8 five_rows" demo_args five_rows Map.empty] program with_faiss
    by blast
  have sims5: "map similarity out = [1, 4 / 5, 3 / 5, 0, - 1]"
    using top5 unfolding top_k_ranking_def five_cosines s5 by blast
  show ?thesis
    using none r labels sims r' same m m' same5 sims5 by simp
qed

end
